theory Spec2Isabelle
  imports
    Main
    "HOL-Library.Finite_Map"
    "HOL-Library.Char_ord"
    "HOL-Library.List_Lexorder"
    "HOL-Library.Sublist"
    "HOL-Library.Monad_Syntax"
begin

section \<open>Codes and visibilities\<close>

text \<open>
  \<^verbatim>\<open>type Code int\<close> with the constants \<^verbatim>\<open>CodeCancelled Code = 1 + iota\<close> ...
  \<^verbatim>\<open>CodeUnauthenticated\<close> (16 of them). Any integer is a \<^verbatim>\<open>Code\<close>, so the
  \<^verbatim>\<open>default\<close> branches of the switches below are reachable.
\<close>

type_synonym Code = int

abbreviation CodeCancelled :: Code where "CodeCancelled \<equiv> 1"
abbreviation CodeUnknown :: Code where "CodeUnknown \<equiv> 2"
abbreviation CodeInvalidArgument :: Code where "CodeInvalidArgument \<equiv> 3"
abbreviation CodeDeadlineExceeded :: Code where "CodeDeadlineExceeded \<equiv> 4"
abbreviation CodeNotFound :: Code where "CodeNotFound \<equiv> 5"
abbreviation CodeAlreadyExists :: Code where "CodeAlreadyExists \<equiv> 6"
abbreviation CodePermissionDenied :: Code where "CodePermissionDenied \<equiv> 7"
abbreviation CodeResourceExhausted :: Code where "CodeResourceExhausted \<equiv> 8"
abbreviation CodeFailedPrecondition :: Code where "CodeFailedPrecondition \<equiv> 9"
abbreviation CodeAborted :: Code where "CodeAborted \<equiv> 10"
abbreviation CodeOutOfRange :: Code where "CodeOutOfRange \<equiv> 11"
abbreviation CodeUnimplemented :: Code where "CodeUnimplemented \<equiv> 12"
abbreviation CodeInternal :: Code where "CodeInternal \<equiv> 13"
abbreviation CodeUnavailable :: Code where "CodeUnavailable \<equiv> 14"
abbreviation CodeDataLoss :: Code where "CodeDataLoss \<equiv> 15"
abbreviation CodeUnauthenticated :: Code where "CodeUnauthenticated \<equiv> 16"

text \<open>\<^verbatim>\<open>func (c Code) Message() string\<close>\<close>

definition Code_Message :: "Code \<Rightarrow> string" where
  "Code_Message c =
    (if c = CodeCancelled then ''the operation was cancelled''
     else if c = CodeUnknown then ''unknown error''
     else if c = CodeInvalidArgument then ''invalid argument provided''
     else if c = CodeDeadlineExceeded then ''deadline exceeded''
     else if c = CodeNotFound then ''resource not found''
     else if c = CodeAlreadyExists then ''resource already exists''
     else if c = CodePermissionDenied then ''permission denied''
     else if c = CodeUnauthenticated then ''unauthenticated''
     else if c = CodeResourceExhausted then ''resource exhausted''
     else if c = CodeFailedPrecondition then ''failed precondition''
     else if c = CodeAborted then ''operation aborted''
     else if c = CodeOutOfRange then ''out of range''
     else if c = CodeUnimplemented then ''not implemented''
     else if c = CodeInternal then ''internal error''
     else if c = CodeUnavailable then ''service unavailable''
     else if c = CodeDataLoss then ''data loss or corruption''
     else ''unknown error'')"

text \<open>\<^verbatim>\<open>func (c Code) HttpStatusCode() int\<close>\<close>

definition HttpStatusCode :: "Code \<Rightarrow> int" where
  "HttpStatusCode c =
    (if c = CodeCancelled then 499
     else if c = CodeUnknown then 500
     else if c = CodeInvalidArgument then 400
     else if c = CodeDeadlineExceeded then 504
     else if c = CodeNotFound then 404
     else if c = CodeAlreadyExists then 409
     else if c = CodePermissionDenied then 403
     else if c = CodeResourceExhausted then 429
     else if c = CodeFailedPrecondition then 400
     else if c = CodeAborted then 409
     else if c = CodeOutOfRange then 400
     else if c = CodeUnimplemented then 501
     else if c = CodeInternal then 500
     else if c = CodeUnavailable then 503
     else if c = CodeDataLoss then 500
     else if c = CodeUnauthenticated then 401
     else 500)"

text \<open>\<^verbatim>\<open>func (c Code) String() string\<close>\<close>

definition Code_String :: "Code \<Rightarrow> string" where
  "Code_String c =
    (if c = CodeCancelled then ''CANCELLED''
     else if c = CodeUnknown then ''UNKNOWN''
     else if c = CodeInvalidArgument then ''INVALID_ARGUMENT''
     else if c = CodeDeadlineExceeded then ''DEADLINE_EXCEEDED''
     else if c = CodeNotFound then ''NOT_FOUND''
     else if c = CodeAlreadyExists then ''ALREADY_EXISTS''
     else if c = CodePermissionDenied then ''PERMISSION_DENIED''
     else if c = CodeResourceExhausted then ''RESOURCE_EXHAUSTED''
     else if c = CodeFailedPrecondition then ''FAILED_PRECONDITION''
     else if c = CodeAborted then ''ABORTED''
     else if c = CodeOutOfRange then ''OUT_OF_RANGE''
     else if c = CodeUnimplemented then ''UNIMPLEMENTED''
     else if c = CodeInternal then ''INTERNAL''
     else if c = CodeUnavailable then ''UNAVAILABLE''
     else if c = CodeDataLoss then ''DATA_LOSS''
     else if c = CodeUnauthenticated then ''UNAUTHENTICATED''
     else ''UNKNOWN'')"

text \<open>\<^verbatim>\<open>type Visibility int\<close> and \<^verbatim>\<open>func (v Visibility) String() string\<close>\<close>

type_synonym Visibility = int

abbreviation VisibilityInternal :: Visibility where "VisibilityInternal \<equiv> 0"
abbreviation VisibilityPrivate :: Visibility where "VisibilityPrivate \<equiv> 1"
abbreviation VisibilityPublic :: Visibility where "VisibilityPublic \<equiv> 2"

definition Visibility_String :: "Visibility \<Rightarrow> string" where
  "Visibility_String v =
    (if v = VisibilityInternal then ''INTERNAL''
     else if v = VisibilityPrivate then ''PRIVATE''
     else if v = VisibilityPublic then ''PUBLIC''
     else ''UNKNOWN'')"

text \<open>The sixteen declared codes, in declaration order.\<close>

definition all_codes :: "Code list" where
  "all_codes = [CodeCancelled, CodeUnknown, CodeInvalidArgument, CodeDeadlineExceeded,
     CodeNotFound, CodeAlreadyExists, CodePermissionDenied, CodeResourceExhausted,
     CodeFailedPrecondition, CodeAborted, CodeOutOfRange, CodeUnimplemented, CodeInternal,
     CodeUnavailable, CodeDataLoss, CodeUnauthenticated]"

section \<open>Strings\<close>

text \<open>
  A Go string is a sequence of bytes; \<^typ>\<open>string\<close> is a list of 8-bit characters, ordered
  bytewise and lexicographically, as Go's \<^verbatim>\<open><\<close> on strings and \<^verbatim>\<open>slices.Sorted\<close> order them.
\<close>

abbreviation NL :: char where "NL \<equiv> CHR 0x0A"

text \<open>
  \<^verbatim>\<open>strings.TrimSpace\<close> removes the leading and the trailing runes for which
  \<^verbatim>\<open>unicode.IsSpace\<close> holds. On bytes these are the six ASCII characters tab, line feed,
  vertical tab, form feed, carriage return and space, and the UTF-8 encodings of U+0085, U+00A0,
  U+1680, U+2000 to U+200A, U+2028, U+2029, U+202F, U+205F and U+3000.
\<close>

definition asciiSpace :: "char list" where
  "asciiSpace = [CHR 0x09, CHR 0x0A, CHR 0x0B, CHR 0x0C, CHR 0x0D, CHR 0x20]"

definition wideSpace :: "string list" where
  "wideSpace =
    [[CHR 0xC2, CHR 0x85], [CHR 0xC2, CHR 0xA0], [CHR 0xE1, CHR 0x9A, CHR 0x80],
     [CHR 0xE2, CHR 0x80, CHR 0x80], [CHR 0xE2, CHR 0x80, CHR 0x81],
     [CHR 0xE2, CHR 0x80, CHR 0x82], [CHR 0xE2, CHR 0x80, CHR 0x83],
     [CHR 0xE2, CHR 0x80, CHR 0x84], [CHR 0xE2, CHR 0x80, CHR 0x85],
     [CHR 0xE2, CHR 0x80, CHR 0x86], [CHR 0xE2, CHR 0x80, CHR 0x87],
     [CHR 0xE2, CHR 0x80, CHR 0x88], [CHR 0xE2, CHR 0x80, CHR 0x89],
     [CHR 0xE2, CHR 0x80, CHR 0x8A], [CHR 0xE2, CHR 0x80, CHR 0xA8],
     [CHR 0xE2, CHR 0x80, CHR 0xA9], [CHR 0xE2, CHR 0x80, CHR 0xAF],
     [CHR 0xE2, CHR 0x81, CHR 0x9F], [CHR 0xE3, CHR 0x80, CHR 0x80]]"

text \<open>The width in bytes of a space rune at the start (at the end) of a string, 0 if none.\<close>

definition leadingSpace :: "string \<Rightarrow> nat" where
  "leadingSpace s =
    (if s \<noteq> [] \<and> hd s \<in> set asciiSpace then 1
     else if take 2 s \<in> set wideSpace then 2
     else if take 3 s \<in> set wideSpace then 3
     else 0)"

definition trailingSpace :: "string \<Rightarrow> nat" where
  "trailingSpace s =
    (if s \<noteq> [] \<and> last s \<in> set asciiSpace then 1
     else if drop (length s - 2) s \<in> set wideSpace then 2
     else if drop (length s - 3) s \<in> set wideSpace then 3
     else 0)"

function TrimLeftSpace :: "string \<Rightarrow> string" where
  "TrimLeftSpace s =
    (if leadingSpace s = 0 \<or> s = [] then s else TrimLeftSpace (drop (leadingSpace s) s))"
  by pat_completeness auto
termination
  by (relation "measure length") auto

function TrimRightSpace :: "string \<Rightarrow> string" where
  "TrimRightSpace s =
    (if trailingSpace s = 0 \<or> s = [] then s
     else TrimRightSpace (take (length s - trailingSpace s) s))"
  by pat_completeness auto
termination
  by (relation "measure length") auto

definition TrimSpace :: "string \<Rightarrow> string" where
  "TrimSpace s = TrimRightSpace (TrimLeftSpace s)"

text \<open>The verb \<^verbatim>\<open>%d\<close> of \<^verbatim>\<open>fmt\<close>: an integer in decimal.\<close>

function decimal :: "nat \<Rightarrow> string" where
  "decimal n =
    (if n < 10 then [char_of (48 + n)] else decimal (n div 10) @ [char_of (48 + n mod 10)])"
  by pat_completeness auto
termination
  by (relation "measure id") auto

definition Itoa :: "int \<Rightarrow> string" where
  "Itoa i = (if i < 0 then CHR ''-'' # decimal (nat (- i)) else decimal (nat i))"

text \<open>The lines of a text: \<^verbatim>\<open>strings.Split(s, "\n")\<close>.\<close>

fun split_lines :: "string \<Rightarrow> string list" where
  "split_lines [] = [[]]"
| "split_lines (c # cs) =
    (if c = NL then [] # split_lines cs
     else (case split_lines cs of l # ls \<Rightarrow> (c # l) # ls | [] \<Rightarrow> [[c]]))"

section \<open>Value objects\<close>

text \<open>
  \<^verbatim>\<open>time.Time\<close> and \<^verbatim>\<open>time.Duration\<close> belong to the standard library. The package observes
  a time only through \<^verbatim>\<open>Format(time.RFC3339)\<close> and a duration only through \<^verbatim>\<open>String()\<close>,
  so each is represented by what that observation returns.
\<close>

datatype Time = Time (Format_RFC3339: string)

datatype Duration = Duration (Duration_String: string)

text \<open>The three fields of \<^verbatim>\<open>runtime.Frame\<close> that the package reads.\<close>

record Frame =
  File :: string
  Line :: int
  Function :: string

record HelpLink =
  description :: string
  url :: string

record Help =
  links :: "HelpLink list"

record MetadataValue =
  mvalue :: string
  mvisibility :: Visibility

type_synonym Metadata = "(string, MetadataValue) fmap"

record DebugInfo =
  stackFrames :: "Frame list"
  detail :: string

record LocalizedMessage =
  llocale :: string
  lmessage :: string

record RetryInfo =
  retryOffset :: "Duration option"
  retryTime :: "Time option"

section \<open>The error value\<close>

text \<open>
  \<^verbatim>\<open>type TrogonError struct\<close>, field by field. A pointer field is an option (\<open>None\<close> is
  \<^verbatim>\<open>nil\<close>); a slice is a list (a \<^verbatim>\<open>nil\<close> slice and an empty one both have length 0, which is
  all the package asks of them); \<^verbatim>\<open>wrappedErr error\<close> is an optional value of the interface
  \<^verbatim>\<open>error\<close>. The values of that interface are this package's errors, held by pointer or by
  value, and errors of other packages, of which the model keeps an identity (what \<^verbatim>\<open>==\<close>
  compares), the text that \<^verbatim>\<open>Error()\<close> returns and the error that \<^verbatim>\<open>Unwrap()\<close> returns.
  The field \<^verbatim>\<open>id\<close> is written \<open>ID\<close> and the field \<^verbatim>\<open>help\<close> is written \<open>help'\<close>, the
  plain names being taken.
\<close>

datatype TrogonError = TrogonError
    (specVersion: int)
    (code: Code)
    (message: string)
    (domain: string)
    (reason: string)
    (metadata: Metadata)
    (causes: "TrogonError list")
    (visibility: Visibility)
    (subject: string)
    (ID: string)
    (time: "Time option")
    (help': "Help option")
    (debugInfo: "DebugInfo option")
    (localizedMessage: "LocalizedMessage option")
    (retryInfo: "RetryInfo option")
    (sourceID: string)
    (wrappedErr: "goerror option")
and goerror =
    Foreign (ident: nat) (errtext: string) (unwrap: "goerror option")
  | PtrTrogon TrogonError
  | ValTrogon TrogonError

text \<open>
  Assignment to one field, \<^verbatim>\<open>e.f = v\<close>: the value whose field \<open>f\<close> is \<open>v\<close> and whose other
  fields are those of \<open>e\<close>. No function of the package assigns \<^verbatim>\<open>specVersion\<close>,
  \<^verbatim>\<open>domain\<close> or \<^verbatim>\<open>reason\<close> after construction.
\<close>

definition set_code :: "Code \<Rightarrow> TrogonError \<Rightarrow> TrogonError" where
  "set_code v e =
    TrogonError (specVersion e) v (message e) (domain e) (reason e) (metadata e) (causes e)
      (visibility e) (subject e) (ID e) (time e) (help' e) (debugInfo e) (localizedMessage e)
      (retryInfo e) (sourceID e) (wrappedErr e)"

definition set_message :: "string \<Rightarrow> TrogonError \<Rightarrow> TrogonError" where
  "set_message v e =
    TrogonError (specVersion e) (code e) v (domain e) (reason e) (metadata e) (causes e)
      (visibility e) (subject e) (ID e) (time e) (help' e) (debugInfo e) (localizedMessage e)
      (retryInfo e) (sourceID e) (wrappedErr e)"

definition set_metadata :: "Metadata \<Rightarrow> TrogonError \<Rightarrow> TrogonError" where
  "set_metadata v e =
    TrogonError (specVersion e) (code e) (message e) (domain e) (reason e) v (causes e)
      (visibility e) (subject e) (ID e) (time e) (help' e) (debugInfo e) (localizedMessage e)
      (retryInfo e) (sourceID e) (wrappedErr e)"

definition set_causes :: "TrogonError list \<Rightarrow> TrogonError \<Rightarrow> TrogonError" where
  "set_causes v e =
    TrogonError (specVersion e) (code e) (message e) (domain e) (reason e) (metadata e) v
      (visibility e) (subject e) (ID e) (time e) (help' e) (debugInfo e) (localizedMessage e)
      (retryInfo e) (sourceID e) (wrappedErr e)"

definition set_visibility :: "Visibility \<Rightarrow> TrogonError \<Rightarrow> TrogonError" where
  "set_visibility v e =
    TrogonError (specVersion e) (code e) (message e) (domain e) (reason e) (metadata e)
      (causes e) v (subject e) (ID e) (time e) (help' e) (debugInfo e) (localizedMessage e)
      (retryInfo e) (sourceID e) (wrappedErr e)"

definition set_subject :: "string \<Rightarrow> TrogonError \<Rightarrow> TrogonError" where
  "set_subject v e =
    TrogonError (specVersion e) (code e) (message e) (domain e) (reason e) (metadata e)
      (causes e) (visibility e) v (ID e) (time e) (help' e) (debugInfo e)
      (localizedMessage e) (retryInfo e) (sourceID e) (wrappedErr e)"

definition set_ID :: "string \<Rightarrow> TrogonError \<Rightarrow> TrogonError" where
  "set_ID v e =
    TrogonError (specVersion e) (code e) (message e) (domain e) (reason e) (metadata e)
      (causes e) (visibility e) (subject e) v (time e) (help' e) (debugInfo e)
      (localizedMessage e) (retryInfo e) (sourceID e) (wrappedErr e)"

definition set_time :: "Time option \<Rightarrow> TrogonError \<Rightarrow> TrogonError" where
  "set_time v e =
    TrogonError (specVersion e) (code e) (message e) (domain e) (reason e) (metadata e)
      (causes e) (visibility e) (subject e) (ID e) v (help' e) (debugInfo e)
      (localizedMessage e) (retryInfo e) (sourceID e) (wrappedErr e)"

definition set_help :: "Help option \<Rightarrow> TrogonError \<Rightarrow> TrogonError" where
  "set_help v e =
    TrogonError (specVersion e) (code e) (message e) (domain e) (reason e) (metadata e)
      (causes e) (visibility e) (subject e) (ID e) (time e) v (debugInfo e)
      (localizedMessage e) (retryInfo e) (sourceID e) (wrappedErr e)"

definition set_debugInfo :: "DebugInfo option \<Rightarrow> TrogonError \<Rightarrow> TrogonError" where
  "set_debugInfo v e =
    TrogonError (specVersion e) (code e) (message e) (domain e) (reason e) (metadata e)
      (causes e) (visibility e) (subject e) (ID e) (time e) (help' e) v (localizedMessage e)
      (retryInfo e) (sourceID e) (wrappedErr e)"

definition set_localizedMessage :: "LocalizedMessage option \<Rightarrow> TrogonError \<Rightarrow> TrogonError" where
  "set_localizedMessage v e =
    TrogonError (specVersion e) (code e) (message e) (domain e) (reason e) (metadata e)
      (causes e) (visibility e) (subject e) (ID e) (time e) (help' e) (debugInfo e) v
      (retryInfo e) (sourceID e) (wrappedErr e)"

definition set_retryInfo :: "RetryInfo option \<Rightarrow> TrogonError \<Rightarrow> TrogonError" where
  "set_retryInfo v e =
    TrogonError (specVersion e) (code e) (message e) (domain e) (reason e) (metadata e)
      (causes e) (visibility e) (subject e) (ID e) (time e) (help' e) (debugInfo e)
      (localizedMessage e) v (sourceID e) (wrappedErr e)"

definition set_sourceID :: "string \<Rightarrow> TrogonError \<Rightarrow> TrogonError" where
  "set_sourceID v e =
    TrogonError (specVersion e) (code e) (message e) (domain e) (reason e) (metadata e)
      (causes e) (visibility e) (subject e) (ID e) (time e) (help' e) (debugInfo e)
      (localizedMessage e) (retryInfo e) v (wrappedErr e)"

definition set_wrappedErr :: "goerror option \<Rightarrow> TrogonError \<Rightarrow> TrogonError" where
  "set_wrappedErr v e =
    TrogonError (specVersion e) (code e) (message e) (domain e) (reason e) (metadata e)
      (causes e) (visibility e) (subject e) (ID e) (time e) (help' e) (debugInfo e)
      (localizedMessage e) (retryInfo e) (sourceID e) v"

lemmas setters =
  set_code_def set_message_def set_metadata_def set_causes_def set_visibility_def
  set_subject_def set_ID_def set_time_def set_help_def set_debugInfo_def
  set_localizedMessage_def set_retryInfo_def set_sourceID_def set_wrappedErr_def

section \<open>Rendering\<close>

text \<open>\<^verbatim>\<open>func (e TrogonError) Message() string\<close>\<close>

definition Message :: "TrogonError \<Rightarrow> string" where
  "Message e = (if message e \<noteq> [] then message e else Code_Message (code e))"

text \<open>\<^verbatim>\<open>func (d DebugInfo) StackEntries() []string\<close>, each entry \<^verbatim>\<open>"%s:%d %s"\<close>.\<close>

definition StackEntries :: "DebugInfo \<Rightarrow> string list" where
  "StackEntries d =
    (if stackFrames d = [] then []
     else map (\<lambda>f. File f @ '':'' @ Itoa (Line f) @ '' '' @ Function f) (stackFrames d))"

text \<open>
  \<^verbatim>\<open>func (e TrogonError) Error() string\<close> writes its sections to a builder one after the
  other. Each section below is one statement of that function, in the order of the source.
\<close>

text \<open>The four \<^verbatim>\<open>Fprintf\<close> calls that are not guarded.\<close>

definition fixedLines :: "TrogonError \<Rightarrow> string" where
  "fixedLines e =
    NL # ''  visibility: '' @ Visibility_String (visibility e)
    @ NL # ''  domain: '' @ domain e
    @ NL # ''  reason: '' @ reason e
    @ NL # ''  code: '' @ Code_String (code e)"

text \<open>The guarded lines for \<^verbatim>\<open>id\<close>, \<^verbatim>\<open>time\<close>, \<^verbatim>\<open>subject\<close> and \<^verbatim>\<open>sourceID\<close>.\<close>

definition optionalLines :: "TrogonError \<Rightarrow> string" where
  "optionalLines e =
    (if ID e \<noteq> [] then NL # ''  id: '' @ ID e else [])
    @ (case time e of None \<Rightarrow> [] | Some t \<Rightarrow> NL # ''  time: '' @ Format_RFC3339 t)
    @ (if subject e \<noteq> [] then NL # ''  subject: '' @ subject e else [])
    @ (if sourceID e \<noteq> [] then NL # ''  sourceId: '' @ sourceID e else [])"

text \<open>\<^verbatim>\<open>if e.retryInfo != nil\<close>: the offset is tested first, then the time.\<close>

definition retryLine :: "TrogonError \<Rightarrow> string" where
  "retryLine e =
    (case retryInfo e of
       None \<Rightarrow> []
     | Some ri \<Rightarrow>
         NL # ''  retryInfo: '' @
         (case retryOffset ri of
            Some d \<Rightarrow> ''retryOffset='' @ Duration_String d
          | None \<Rightarrow>
              (case retryTime ri of
                 Some t \<Rightarrow> ''retryTime='' @ Format_RFC3339 t
               | None \<Rightarrow> [])))"

text \<open>\<^verbatim>\<open>slices.Sorted(maps.Keys(m))\<close>: the keys of the map in ascending order.\<close>

definition sortedKeys :: "Metadata \<Rightarrow> string list" where
  "sortedKeys m = sorted_list_of_fset (fmdom m)"

text \<open>\<^verbatim>\<open>m[k]\<close>: the entry, or the zero value when the key is absent.\<close>

definition index_metadata :: "Metadata \<Rightarrow> string \<Rightarrow> MetadataValue" where
  "index_metadata m k =
    (case fmlookup m k of Some v \<Rightarrow> v | None \<Rightarrow> \<lparr>mvalue = [], mvisibility = 0\<rparr>)"

text \<open>The body of the loop over the sorted keys: one \<^verbatim>\<open>Fprintf\<close> for a key.\<close>

definition metadataEntry :: "Metadata \<Rightarrow> string \<Rightarrow> string" where
  "metadataEntry m k =
    NL # ''    - '' @ k @ '': '' @ mvalue (index_metadata m k)
    @ '' visibility='' @ Visibility_String (mvisibility (index_metadata m k))"

text \<open>\<^verbatim>\<open>if len(e.metadata) > 0\<close>\<close>

definition metadataLines :: "TrogonError \<Rightarrow> string" where
  "metadataLines e =
    (if fmdom (metadata e) \<noteq> {||}
     then NL # ''  metadata:'' @ concat (map (metadataEntry (metadata e)) (sortedKeys (metadata e)))
     else [])"

text \<open>\<^verbatim>\<open>if e.help != nil && len(e.help.links) > 0\<close>: a line feed before every link but the first.\<close>

definition helpLines :: "TrogonError \<Rightarrow> string" where
  "helpLines e =
    (case help' e of
       None \<Rightarrow> []
     | Some h \<Rightarrow>
         if links h = [] then []
         else NL # NL #
           concat (map (\<lambda>(i, l). (if 0 < i then [NL] else []) @
                          ''- '' @ description l @ '': '' @ url l)
                       (enumerate (0::nat) (links h))))"

text \<open>\<^verbatim>\<open>if e.debugInfo != nil\<close>\<close>

definition debugLines :: "TrogonError \<Rightarrow> string" where
  "debugLines e =
    (case debugInfo e of
       None \<Rightarrow> []
     | Some d \<Rightarrow>
         [NL] @ (if detail d \<noteq> [] then NL # detail d else [])
         @ concat (map (\<lambda>entry. NL # entry) (StackEntries d)))"

text \<open>
  \<^verbatim>\<open>Error()\<close> of a value of the interface: a foreign error returns its text, an error of the
  package is rendered by the function itself, through the wrapped chain.
\<close>

function Error :: "TrogonError \<Rightarrow> string" and Error_of :: "goerror \<Rightarrow> string" where
  "Error e =
    TrimSpace (Message e) @ fixedLines e @ optionalLines e @ retryLine e @ metadataLines e
    @ helpLines e
    @ (case wrappedErr e of
         None \<Rightarrow> []
       | Some w \<Rightarrow> NL # NL # ''wrapped error: '' @ Error_of w)
    @ debugLines e"
| "Error_of (Foreign i s u) = s"
| "Error_of (PtrTrogon t) = Error t"
| "Error_of (ValTrogon t) = Error t"
  by pat_completeness auto
termination
proof (relation "measure (\<lambda>x. case x of Inl e \<Rightarrow> size e | Inr w \<Rightarrow> size w)")
  show "wf (measure (\<lambda>x. case x of Inl e \<Rightarrow> size e | Inr (w::goerror) \<Rightarrow> size w))"
    by simp
next
  fix e :: TrogonError and w
  assume "wrappedErr e = Some w"
  then show "(Inr w, Inl e) \<in> measure (\<lambda>x. case x of Inl e \<Rightarrow> size e | Inr w \<Rightarrow> size w)"
    by (cases e) simp
qed simp_all

declare Error.simps(1) [simp del]

section \<open>Identity\<close>

text \<open>
  \<^verbatim>\<open>func (e TrogonError) Is(target error) bool\<close> and, for its \<^verbatim>\<open>default\<close> branch, the
  standard \<^verbatim>\<open>errors.Is\<close>, whose loop \<^verbatim>\<open>is\<close> tests a layer with \<^verbatim>\<open>==\<close>, then with the
  layer's own \<^verbatim>\<open>Is\<close> method, then goes to \<^verbatim>\<open>Unwrap()\<close>. A layer of this package is never
  \<^verbatim>\<open>==\<close> to a foreign target, and where it is \<^verbatim>\<open>==\<close> to a target of this package its \<^verbatim>\<open>Is\<close>
  method answers true as well, so for such a layer the method decides.
\<close>

function Is :: "TrogonError \<Rightarrow> goerror option \<Rightarrow> bool"
  and errors_is :: "goerror \<Rightarrow> goerror \<Rightarrow> bool" where
  "Is e target =
    (case target of
       Some (PtrTrogon t) \<Rightarrow> domain e = domain t \<and> reason e = reason t
     | Some (ValTrogon t) \<Rightarrow> domain e = domain t \<and> reason e = reason t
     | Some (Foreign i s u) \<Rightarrow>
         (case wrappedErr e of None \<Rightarrow> False | Some w \<Rightarrow> errors_is w (Foreign i s u))
     | None \<Rightarrow> wrappedErr e = None)"
| "errors_is (Foreign i s u) target =
    (Foreign i s u = target \<or> (case u of None \<Rightarrow> False | Some w \<Rightarrow> errors_is w target))"
| "errors_is (PtrTrogon e) target =
    (Is e (Some target) \<or> (case wrappedErr e of None \<Rightarrow> False | Some w \<Rightarrow> errors_is w target))"
| "errors_is (ValTrogon e) target =
    (Is e (Some target) \<or> (case wrappedErr e of None \<Rightarrow> False | Some w \<Rightarrow> errors_is w target))"
  by pat_completeness auto
termination
proof (relation "measure (\<lambda>x. case x of Inl (e, t) \<Rightarrow> size e | Inr (w, t) \<Rightarrow> size w)")
  fix e :: TrogonError and target i s u w
  assume "wrappedErr e = Some w"
  then show "(Inr (w, Foreign i s u), Inl (e, target))
      \<in> measure (\<lambda>x. case x of Inl (e, t) \<Rightarrow> size e | Inr (w, t) \<Rightarrow> size w)"
    by (cases e) simp
next
  fix e :: TrogonError and target w
  assume "wrappedErr e = Some w"
  then show "(Inr (w, target), Inr (PtrTrogon e, target))
      \<in> measure (\<lambda>x. case x of Inl (e, t) \<Rightarrow> size e | Inr (w, t) \<Rightarrow> size w)"
    by (cases e) simp
next
  fix e :: TrogonError and target w
  assume "wrappedErr e = Some w"
  then show "(Inr (w, target), Inr (ValTrogon e, target))
      \<in> measure (\<lambda>x. case x of Inl (e, t) \<Rightarrow> size e | Inr (w, t) \<Rightarrow> size w)"
    by (cases e) simp
qed simp_all

declare Is.simps(1) [simp del]

text \<open>\<^verbatim>\<open>func (e TrogonError) Unwrap() error\<close>\<close>

definition Unwrap :: "TrogonError \<Rightarrow> goerror option" where
  "Unwrap e = wrappedErr e"

section \<open>Construction\<close>

text \<open>
  \<^verbatim>\<open>type ErrorOption func(*TrogonError)\<close>. The fields of the struct are unexported, so the
  options a caller can pass are those the package's own constructors return; each constructor
  of the datatype is one of them, with the arguments its closure captured. The variants with a
  format (\<^verbatim>\<open>WithMetadataValuef\<close>, \<^verbatim>\<open>WithHelpLinkf\<close>) carry the text that \<^verbatim>\<open>fmt.Sprintf\<close>
  returns for their format and arguments. \<^verbatim>\<open>WithStackTraceDepth\<close> reads the call stack of
  the running goroutine: its second argument is that stack as \<^verbatim>\<open>runtime.Callers(2, ...)\<close> sees
  it when the option runs. \<^verbatim>\<open>WithStackTrace()\<close> is \<^verbatim>\<open>WithStackTraceDepth(32)\<close>.
\<close>

datatype ErrorOption =
    WithCode Code
  | WithMessage string
  | WithMetadata Metadata
  | WithMetadataValue Visibility string string
  | WithMetadataValuef Visibility string string
  | WithVisibility Visibility
  | WithSubject string
  | WithID string
  | WithTime Time
  | WithSourceID string
  | WithHelp Help
  | WithHelpLink string string
  | WithHelpLinkf string string
  | WithDebugInfo DebugInfo
  | WithDebugDetail string
  | WithStackTraceDepth int "Frame list"
  | WithLocalizedMessage string string
  | WithRetryInfoDuration Duration
  | WithRetryTime Time
  | WithCause "TrogonError list"
  | WithErrorMessage goerror
  | WithWrap "goerror option"

abbreviation WithStackTrace :: "Frame list \<Rightarrow> ErrorOption" where
  "WithStackTrace \<equiv> WithStackTraceDepth 32"

text \<open>\<^verbatim>\<open>func addHelpLink(e *TrogonError, description, url string)\<close>\<close>

definition addHelpLink :: "string \<Rightarrow> string \<Rightarrow> TrogonError \<Rightarrow> TrogonError" where
  "addHelpLink d u e =
    (let h = (case help' e of None \<Rightarrow> \<lparr>links = []\<rparr> | Some h \<Rightarrow> h)
     in set_help (Some (h\<lparr>links := links h @ [\<lparr>description = d, url = u\<rparr>]\<rparr>)) e)"

text \<open>\<^verbatim>\<open>func addMetadataValue(e *TrogonError, visibility Visibility, key, value string)\<close>\<close>

definition addMetadataValue ::
  "Visibility \<Rightarrow> string \<Rightarrow> string \<Rightarrow> TrogonError \<Rightarrow> TrogonError" where
  "addMetadataValue vis key val e =
    (let m = (if fmdom (metadata e) = {||} then fmempty else metadata e)
     in set_metadata (fmupd key \<lparr>mvalue = val, mvisibility = vis\<rparr> m) e)"

text \<open>
  \<^verbatim>\<open>func captureStackTrace(skip, maxDepth int) []runtime.Frame\<close> on a given stack: at most
  \<^verbatim>\<open>maxDepth\<close> frames (32 when \<^verbatim>\<open>maxDepth <= 0\<close>); the loop appends a frame before it tests
  \<^verbatim>\<open>more\<close>, so an empty stack gives one zero frame.
\<close>

definition captureStackTrace :: "Frame list \<Rightarrow> int \<Rightarrow> Frame list" where
  "captureStackTrace stack maxDepth =
    (let depth = (if maxDepth \<le> 0 then 32 else maxDepth);
         frames = take (nat depth) stack
     in if frames = [] then [\<lparr>File = [], Line = 0, Function = []\<rparr>] else frames)"

text \<open>The effect of an option on the error under construction.\<close>

fun apply_option :: "ErrorOption \<Rightarrow> TrogonError \<Rightarrow> TrogonError" where
  "apply_option (WithCode c) e = set_code c e"
| "apply_option (WithMessage m) e = set_message m e"
| "apply_option (WithMetadata m) e = set_metadata (metadata e ++\<^sub>f m) e"
| "apply_option (WithMetadataValue vis key val) e = addMetadataValue vis key val e"
| "apply_option (WithMetadataValuef vis key val) e = addMetadataValue vis key val e"
| "apply_option (WithVisibility v) e = set_visibility v e"
| "apply_option (WithSubject s) e = set_subject s e"
| "apply_option (WithID i) e = set_ID i e"
| "apply_option (WithTime t) e = set_time (Some t) e"
| "apply_option (WithSourceID s) e = set_sourceID s e"
| "apply_option (WithHelp h) e = set_help (Some h) e"
| "apply_option (WithHelpLink d u) e = addHelpLink d u e"
| "apply_option (WithHelpLinkf d u) e = addHelpLink d u e"
| "apply_option (WithDebugInfo d) e = set_debugInfo (Some d) e"
| "apply_option (WithDebugDetail d) e =
    (case debugInfo e of
       None \<Rightarrow> set_debugInfo (Some \<lparr>stackFrames = [], detail = d\<rparr>) e
     | Some di \<Rightarrow> set_debugInfo (Some (di\<lparr>detail := d\<rparr>)) e)"
| "apply_option (WithStackTraceDepth maxDepth stack) e =
    (case debugInfo e of
       None \<Rightarrow>
         set_debugInfo (Some \<lparr>stackFrames = captureStackTrace stack maxDepth, detail = []\<rparr>) e
     | Some di \<Rightarrow>
         set_debugInfo (Some (di\<lparr>stackFrames := captureStackTrace stack maxDepth\<rparr>)) e)"
| "apply_option (WithLocalizedMessage l m) e =
    set_localizedMessage (Some \<lparr>llocale = l, lmessage = m\<rparr>) e"
| "apply_option (WithRetryInfoDuration d) e =
    set_retryInfo (Some \<lparr>retryOffset = Some d, retryTime = None\<rparr>) e"
| "apply_option (WithRetryTime t) e =
    set_retryInfo (Some \<lparr>retryOffset = None, retryTime = Some t\<rparr>) e"
| "apply_option (WithCause cs) e = set_causes (causes e @ cs) e"
| "apply_option (WithErrorMessage err) e = set_message (Error_of err) e"
| "apply_option (WithWrap err) e = set_wrappedErr err e"

text \<open>\<^verbatim>\<open>for _, option := range options { option(err) }\<close>\<close>

fun apply_options :: "ErrorOption list \<Rightarrow> TrogonError \<Rightarrow> TrogonError" where
  "apply_options [] e = e"
| "apply_options (option # options) e = apply_options options (apply_option option e)"

text \<open>\<^verbatim>\<open>const SpecVersion = 1\<close>\<close>

abbreviation SpecVersion :: int where "SpecVersion \<equiv> 1"

text \<open>\<^verbatim>\<open>func NewError(domain, reason string, options ...ErrorOption) *TrogonError\<close>\<close>

definition NewError :: "string \<Rightarrow> string \<Rightarrow> ErrorOption list \<Rightarrow> TrogonError" where
  "NewError d r options =
    apply_options options
      (TrogonError SpecVersion CodeUnknown [] d r fmempty [] VisibilityInternal [] [] None None
         None None None [] None)"

section \<open>Copy on write\<close>

text \<open>\<^verbatim>\<open>func (h Help) copy() Help\<close> and \<^verbatim>\<open>func (d DebugInfo) copy() DebugInfo\<close>\<close>

definition Help_copy :: "Help \<Rightarrow> Help" where
  "Help_copy h = (if links h = [] then \<lparr>links = []\<rparr> else \<lparr>links = links h\<rparr>)"

definition DebugInfo_copy :: "DebugInfo \<Rightarrow> DebugInfo" where
  "DebugInfo_copy d =
    (if stackFrames d = [] then \<lparr>stackFrames = [], detail = detail d\<rparr>
     else \<lparr>stackFrames = stackFrames d, detail = detail d\<rparr>)"

text \<open>\<^verbatim>\<open>func (e *TrogonError) copy() *TrogonError\<close>, as a value.\<close>

definition copy :: "TrogonError \<Rightarrow> TrogonError" where
  "copy e =
    TrogonError (specVersion e) (code e) (message e) (domain e) (reason e)
      (if fmdom (metadata e) \<noteq> {||} then metadata e else fmempty)
      (if causes e \<noteq> [] then causes e else [])
      (visibility e) (subject e) (ID e) (time e)
      (map_option Help_copy (help' e))
      (map_option DebugInfo_copy (debugInfo e))
      (localizedMessage e) (retryInfo e) (sourceID e) (wrappedErr e)"

text \<open>\<^verbatim>\<open>type ChangeOption func(*TrogonError)\<close>, closed in the same way as the options.\<close>

datatype ChangeOption =
    WithChangeMetadata Metadata
  | WithChangeMetadataValue Visibility string string
  | WithChangeMetadataValuef Visibility string string
  | WithChangeID string
  | WithChangeTime Time
  | WithChangeSourceID string
  | WithChangeHelpLink string string
  | WithChangeHelpLinkf string string
  | WithChangeRetryInfoDuration Duration
  | WithChangeRetryTime Time
  | WithChangeLocalizedMessage string string

fun apply_change :: "ChangeOption \<Rightarrow> TrogonError \<Rightarrow> TrogonError" where
  "apply_change (WithChangeMetadata m) e = set_metadata (fmempty ++\<^sub>f m) e"
| "apply_change (WithChangeMetadataValue vis key val) e = addMetadataValue vis key val e"
| "apply_change (WithChangeMetadataValuef vis key val) e = addMetadataValue vis key val e"
| "apply_change (WithChangeID i) e = set_ID i e"
| "apply_change (WithChangeTime t) e = set_time (Some t) e"
| "apply_change (WithChangeSourceID s) e = set_sourceID s e"
| "apply_change (WithChangeHelpLink d u) e = addHelpLink d u e"
| "apply_change (WithChangeHelpLinkf d u) e = addHelpLink d u e"
| "apply_change (WithChangeRetryInfoDuration d) e =
    set_retryInfo (Some \<lparr>retryOffset = Some d, retryTime = None\<rparr>) e"
| "apply_change (WithChangeRetryTime t) e =
    set_retryInfo (Some \<lparr>retryOffset = None, retryTime = Some t\<rparr>) e"
| "apply_change (WithChangeLocalizedMessage l m) e =
    set_localizedMessage (Some \<lparr>llocale = l, lmessage = m\<rparr>) e"

fun apply_changes :: "ChangeOption list \<Rightarrow> TrogonError \<Rightarrow> TrogonError" where
  "apply_changes [] e = e"
| "apply_changes (change # changes) e = apply_changes changes (apply_change change e)"

text \<open>\<^verbatim>\<open>func (e *TrogonError) WithChanges(changes ...ChangeOption) *TrogonError\<close>\<close>

definition WithChanges :: "TrogonError \<Rightarrow> ChangeOption list \<Rightarrow> TrogonError" where
  "WithChanges e changes = apply_changes changes (copy e)"

section \<open>Templates\<close>

text \<open>\<^verbatim>\<open>type ErrorTemplate struct\<close>; the fields carry the prefix \<open>t\<close>.\<close>

record ErrorTemplate =
  tdomain :: string
  treason :: string
  tcode :: Code
  tmessage :: string
  tvisibility :: Visibility
  thelp :: "Help option"

datatype TemplateOption =
    TemplateWithCode Code
  | TemplateWithMessage string
  | TemplateWithVisibility Visibility
  | TemplateWithHelp Help
  | TemplateWithHelpLink string string

fun apply_template_option :: "TemplateOption \<Rightarrow> ErrorTemplate \<Rightarrow> ErrorTemplate" where
  "apply_template_option (TemplateWithCode c) t = t\<lparr>tcode := c\<rparr>"
| "apply_template_option (TemplateWithMessage m) t = t\<lparr>tmessage := m\<rparr>"
| "apply_template_option (TemplateWithVisibility v) t = t\<lparr>tvisibility := v\<rparr>"
| "apply_template_option (TemplateWithHelp h) t = t\<lparr>thelp := Some h\<rparr>"
| "apply_template_option (TemplateWithHelpLink d u) t =
    (let h = (case thelp t of None \<Rightarrow> \<lparr>links = []\<rparr> | Some h \<Rightarrow> h)
     in t\<lparr>thelp := Some (h\<lparr>links := links h @ [\<lparr>description = d, url = u\<rparr>]\<rparr>)\<rparr>)"

text \<open>\<^verbatim>\<open>func NewErrorTemplate(domain, reason string, options ...TemplateOption) *ErrorTemplate\<close>\<close>

definition NewErrorTemplate :: "string \<Rightarrow> string \<Rightarrow> TemplateOption list \<Rightarrow> ErrorTemplate" where
  "NewErrorTemplate d r options =
    fold apply_template_option options
      \<lparr>tdomain = d, treason = r, tcode = CodeUnknown, tmessage = [],
       tvisibility = VisibilityInternal, thelp = None\<rparr>"

text \<open>The slice \<^verbatim>\<open>baseOptions\<close> that \<^verbatim>\<open>ErrorTemplate.NewError\<close> builds.\<close>

definition baseOptions :: "ErrorTemplate \<Rightarrow> ErrorOption list" where
  "baseOptions et =
    [WithCode (tcode et), WithVisibility (tvisibility et)]
    @ (if tmessage et \<noteq> [] then [WithMessage (tmessage et)] else [])
    @ (case thelp et of None \<Rightarrow> [] | Some h \<Rightarrow> [WithHelp h])"

text \<open>\<^verbatim>\<open>func (et *ErrorTemplate) NewError(options ...ErrorOption) *TrogonError\<close>\<close>

definition Template_NewError :: "ErrorTemplate \<Rightarrow> ErrorOption list \<Rightarrow> TrogonError" where
  "Template_NewError et options = NewError (tdomain et) (treason et) (baseOptions et @ options)"

text \<open>\<^verbatim>\<open>func (et *ErrorTemplate) Is(target error) bool\<close>\<close>

definition Template_Is :: "ErrorTemplate \<Rightarrow> goerror option \<Rightarrow> bool" where
  "Template_Is et target =
    (case target of
       Some (PtrTrogon t) \<Rightarrow> tdomain et = domain t \<and> treason et = reason t
     | Some (ValTrogon t) \<Rightarrow> tdomain et = domain t \<and> treason et = reason t
     | _ \<Rightarrow> False)"

section \<open>Notions used by the properties\<close>

text \<open>
  The errors that a caller can hold: results of \<^verbatim>\<open>NewError\<close>, of an
  \<^verbatim>\<open>ErrorTemplate.NewError\<close>, and of \<^verbatim>\<open>WithChanges\<close> on such an error.
\<close>

inductive reachable :: "TrogonError \<Rightarrow> bool" where
  new: "reachable (NewError d r opts)"
| template: "reachable (Template_NewError et opts)"
| changes: "reachable e \<Longrightarrow> reachable (WithChanges e cs)"

text \<open>A retry info is absent, or holds exactly one of its two variants.\<close>

definition retry_exclusive :: "RetryInfo option \<Rightarrow> bool" where
  "retry_exclusive ri =
    (case ri of None \<Rightarrow> True | Some r \<Rightarrow> (retryOffset r = None) \<noteq> (retryTime r = None))"

fun is_retry_option :: "ErrorOption \<Rightarrow> bool" where
  "is_retry_option (WithRetryInfoDuration d) = True"
| "is_retry_option (WithRetryTime t) = True"
| "is_retry_option _ = False"

fun is_retry_change :: "ChangeOption \<Rightarrow> bool" where
  "is_retry_change (WithChangeRetryInfoDuration d) = True"
| "is_retry_change (WithChangeRetryTime t) = True"
| "is_retry_change _ = False"







text \<open>The help links of an error, and the links that a list of options appends.\<close>

definition helpLinks :: "Help option \<Rightarrow> HelpLink list" where
  "helpLinks h = (case h of None \<Rightarrow> [] | Some x \<Rightarrow> links x)"




text \<open>
  An error none of whose optional sections is rendered: the strings \<^verbatim>\<open>id\<close>, \<^verbatim>\<open>subject\<close> and
  \<^verbatim>\<open>sourceID\<close> are empty, the time, the retry info, the wrapped error and the debug info are
  \<^verbatim>\<open>nil\<close>, the metadata has no entry and the help is \<^verbatim>\<open>nil\<close> or has no link.
\<close>

definition optional_empty :: "TrogonError \<Rightarrow> bool" where
  "optional_empty e =
    (ID e = [] \<and> time e = None \<and> subject e = [] \<and> sourceID e = [] \<and> retryInfo e = None
     \<and> fmdom (metadata e) = {||} \<and> helpLinks (help' e) = [] \<and> wrappedErr e = None
     \<and> debugInfo e = None)"


text \<open>
  The text of one metadata entry, \<^verbatim>\<open>- <key>: <value> visibility=<VISIBILITY_NAME>\<close> after four
  spaces, and the options that insert a list of entries one by one.
\<close>

definition entryText :: "string \<Rightarrow> MetadataValue \<Rightarrow> string" where
  "entryText k v =
    ''    - '' @ k @ '': '' @ mvalue v @ '' visibility='' @ Visibility_String (mvisibility v)"

definition metadataOptions :: "(Visibility \<times> string \<times> string) list \<Rightarrow> ErrorOption list" where
  "metadataOptions kvs = map (\<lambda>(vis, key, val). WithMetadataValue vis key val) kvs"

definition metadataEntryOf :: "Visibility \<times> string \<times> string \<Rightarrow> string \<times> MetadataValue" where
  "metadataEntryOf x = (case x of (vis, key, val) \<Rightarrow> (key, \<lparr>mvalue = val, mvisibility = vis\<rparr>))"


section \<open>Chain extraction\<close>

text \<open>
  Modelled from the spec: the function \<^verbatim>\<open>As(err, target)\<close> is called by the tests of the package
  but is not among its sources. The spec describes it as chain extraction, which walks a
  possibly wrapped external error chain, following each layer's own unwrap link, looking for the
  first layer that is of this system's type and whose identity matches a given template or
  exemplar error, and returns the found value and a success flag, or an absent value and
  failure. The target is a template or an exemplar error.
\<close>

datatype target = TargetTemplate ErrorTemplate | TargetError TrogonError

text \<open>
  Modelled from the spec: the identity test that \<^verbatim>\<open>As\<close> applies to a layer of the package,
  domain and reason against those of the target; it is written with the \<^verbatim>\<open>Is\<close> methods of the
  sources.
\<close>

definition target_is :: "target \<Rightarrow> TrogonError \<Rightarrow> bool" where
  "target_is tg t =
    (case tg of
       TargetTemplate et \<Rightarrow> Template_Is et (Some (PtrTrogon t))
     | TargetError x \<Rightarrow> Is x (Some (PtrTrogon t)))"

text \<open>
  Modelled from the spec: the walk of \<^verbatim>\<open>As\<close> along the chain, from a layer that is not
  \<^verbatim>\<open>nil\<close>.
\<close>

function As_walk :: "goerror \<Rightarrow> target \<Rightarrow> TrogonError option \<times> bool" where
  "As_walk (Foreign i s u) tg =
    (case u of None \<Rightarrow> (None, False) | Some w \<Rightarrow> As_walk w tg)"
| "As_walk (PtrTrogon t) tg =
    (if target_is tg t then (Some t, True)
     else (case wrappedErr t of None \<Rightarrow> (None, False) | Some w \<Rightarrow> As_walk w tg))"
| "As_walk (ValTrogon t) tg =
    (if target_is tg t then (Some t, True)
     else (case wrappedErr t of None \<Rightarrow> (None, False) | Some w \<Rightarrow> As_walk w tg))"
  by pat_completeness auto
termination
proof (relation "measure (\<lambda>(x, tg). size x)")
  fix t :: TrogonError and tg :: target and w
  assume "wrappedErr t = Some w"
  then show "((w, tg), (PtrTrogon t, tg)) \<in> measure (\<lambda>(x, tg). size x)"
    by (cases t) simp
  from \<open>wrappedErr t = Some w\<close> show "((w, tg), (ValTrogon t, tg)) \<in> measure (\<lambda>(x, tg). size x)"
    by (cases t) simp
qed simp_all

text \<open>Modelled from the spec: \<^verbatim>\<open>As(err, target)\<close>, for an \<^verbatim>\<open>err\<close> that may be \<^verbatim>\<open>nil\<close>.\<close>

definition As :: "goerror option \<Rightarrow> target \<Rightarrow> TrogonError option \<times> bool" where
  "As err tg = (case err of None \<Rightarrow> (None, False) | Some x \<Rightarrow> As_walk x tg)"

text \<open>
  The layers of a chain, outermost first; the error of the package that a layer holds; a
  layer that matches a target; and an error under \<open>n\<close> foreign layers, as
  \<^verbatim>\<open>fmt.Errorf("context: %w", err)\<close> builds them.
\<close>

function layers :: "goerror \<Rightarrow> goerror list" where
  "layers (Foreign i s u) =
    Foreign i s u # (case u of None \<Rightarrow> [] | Some w \<Rightarrow> layers w)"
| "layers (PtrTrogon t) =
    PtrTrogon t # (case wrappedErr t of None \<Rightarrow> [] | Some w \<Rightarrow> layers w)"
| "layers (ValTrogon t) =
    ValTrogon t # (case wrappedErr t of None \<Rightarrow> [] | Some w \<Rightarrow> layers w)"
  by pat_completeness auto
termination
proof (relation "measure size")
  fix t :: TrogonError and w
  assume "wrappedErr t = Some w"
  then show "(w, PtrTrogon t) \<in> measure size"
    by (cases t) simp
  from \<open>wrappedErr t = Some w\<close> show "(w, ValTrogon t) \<in> measure size"
    by (cases t) simp
qed simp_all

fun trogon_of :: "goerror \<Rightarrow> TrogonError option" where
  "trogon_of (Foreign i s u) = None"
| "trogon_of (PtrTrogon t) = Some t"
| "trogon_of (ValTrogon t) = Some t"

definition layer_matches :: "target \<Rightarrow> goerror \<Rightarrow> bool" where
  "layer_matches tg l = (case trogon_of l of None \<Rightarrow> False | Some t \<Rightarrow> target_is tg t)"

fun wrapped :: "nat \<Rightarrow> goerror \<Rightarrow> goerror" where
  "wrapped 0 x = x"
| "wrapped (Suc n) x = Foreign n (''context: '' @ Error_of (wrapped n x)) (Some (wrapped n x))"


section \<open>Copy on write, with the store\<close>

text \<open>
  The functions of the previous sections treat an error as a value, which hides what
  \<^verbatim>\<open>WithChanges\<close> has to get right: the receiver and the result are two objects behind two
  pointers, and a map, a slice or a pointer copied by the struct literal of \<^verbatim>\<open>copy()\<close>
  would still lead to the objects of the receiver. This section models the same code over an
  explicit store, so that sharing is visible.

  The store has one region for each kind of object that the package allocates. An address is an
  index into the region, a new object is appended at the end, and no object is ever removed,
  as under a garbage collector that keeps whatever is still referenced. A Go slice is a
  reference to a backing array together with a length; its capacity is the length of the
  backing array, since the slices that the package builds (with \<^verbatim>\<open>make\<close> and \<^verbatim>\<open>append\<close>)
  start at the first element of their array.
\<close>

type_synonym addr = nat

record slice =
  base :: addr
  len :: nat

text \<open>
  The struct \<^verbatim>\<open>TrogonError\<close> as it lies in memory. The fields \<^verbatim>\<open>metadata\<close> (a map),
  \<^verbatim>\<open>help\<close> and \<^verbatim>\<open>debugInfo\<close> (pointers) are references into the store or nil, and
  \<^verbatim>\<open>causes\<close> is a slice of pointers. The pointers \<^verbatim>\<open>time\<close>, \<^verbatim>\<open>retryInfo\<close> and
  \<^verbatim>\<open>localizedMessage\<close> lead to objects that no function of the package writes to after
  they are allocated (every option that sets one of them allocates a new object), so they are
  kept as the values they point to; \<^verbatim>\<open>wrappedErr\<close> is an interface that the package only
  stores and reads.
\<close>

record TrogonErrorS =
  s_specVersion :: int
  s_code :: Code
  s_message :: string
  s_domain :: string
  s_reason :: string
  s_metadata :: "addr option"
  s_causes :: "slice option"
  s_visibility :: Visibility
  s_subject :: string
  s_id :: string
  s_time :: "Time option"
  s_help :: "addr option"
  s_debugInfo :: "addr option"
  s_localizedMessage :: "LocalizedMessage option"
  s_retryInfo :: "RetryInfo option"
  s_sourceID :: string
  s_wrappedErr :: "goerror option"

text \<open>
  The store: the \<^verbatim>\<open>TrogonError\<close> objects, the maps, the \<^verbatim>\<open>Help\<close> objects (each holds its
  slice \<^verbatim>\<open>links\<close>), the backing arrays of help links, the \<^verbatim>\<open>DebugInfo\<close> objects (the slice
  \<^verbatim>\<open>stackFrames\<close> and \<^verbatim>\<open>detail\<close>), the backing arrays of frames, and the backing arrays of
  cause pointers.
\<close>

record heap =
  errObjs :: "TrogonErrorS list"
  mapObjs :: "Metadata list"
  helpObjs :: "slice option list"
  linkArrs :: "HelpLink list list"
  debugObjs :: "(slice option \<times> string) list"
  frameArrs :: "Frame list list"
  causeArrs :: "addr option list list"

text \<open>
  Reading through a reference gives nothing when the address is not allocated; a function that
  does so returns \<^term>\<open>None\<close>, as the program would stop with a nil dereference.
\<close>

definition deref :: "'a list \<Rightarrow> addr \<Rightarrow> 'a option" where
  "deref xs a = (if a < length xs then Some (xs ! a) else None)"

definition upd_err :: "addr \<Rightarrow> (TrogonErrorS \<Rightarrow> TrogonErrorS) \<Rightarrow> heap \<Rightarrow> heap option" where
  "upd_err e f h =
    (case deref (errObjs h) e of
       None \<Rightarrow> None
     | Some s \<Rightarrow> Some (h\<lparr>errObjs := (errObjs h)[e := f s]\<rparr>))"

text \<open>
  The four conditional blocks of \<^verbatim>\<open>func (e *TrogonError) copy() *TrogonError\<close>, each
  writing a field of the clone \<^verbatim>\<open>clonedErr\<close> at address \<^term>\<open>c\<close>.

  \<^verbatim>\<open>if len(e.metadata) > 0\<close>: a new map is made and filled with the entries of the receiver's.
\<close>

definition clone_metadata :: "addr option \<Rightarrow> addr \<Rightarrow> heap \<Rightarrow> heap option" where
  "clone_metadata mref c h =
    (case mref of
       None \<Rightarrow> Some h
     | Some m \<Rightarrow>
         (case deref (mapObjs h) m of
            None \<Rightarrow> None
          | Some md \<Rightarrow>
              if fmdom md \<noteq> {||}
              then upd_err c (\<lambda>x. x\<lparr>s_metadata := Some (length (mapObjs h))\<rparr>)
                     (h\<lparr>mapObjs := mapObjs h @ [md]\<rparr>)
              else Some h))"

text \<open>
  \<^verbatim>\<open>if len(e.causes) > 0\<close>: a new array of the same length receives the cause pointers; the
  causes themselves are shared, and nothing writes to them.
\<close>

definition clone_causes :: "slice option \<Rightarrow> addr \<Rightarrow> heap \<Rightarrow> heap option" where
  "clone_causes cs c h =
    (case cs of
       None \<Rightarrow> Some h
     | Some sl \<Rightarrow>
         if 0 < len sl
         then (case deref (causeArrs h) (base sl) of
                 None \<Rightarrow> None
               | Some arr \<Rightarrow>
                   if len sl \<le> length arr
                   then upd_err c
                          (\<lambda>x. x\<lparr>s_causes := Some \<lparr>base = length (causeArrs h), len = len sl\<rparr>\<rparr>)
                          (h\<lparr>causeArrs := causeArrs h @ [take (len sl) arr]\<rparr>)
                   else None)
         else Some h)"

text \<open>
  \<^verbatim>\<open>func (h Help) copy() Help\<close> returns the slice of a new array holding the links, or the
  nil slice when there are none; \<^verbatim>\<open>copy()\<close> stores the returned struct in a new \<^verbatim>\<open>Help\<close>
  object, at \<^verbatim>\<open>clonedErr.help = &helpCopy\<close>.
\<close>

definition Help_copy_h :: "slice option \<Rightarrow> heap \<Rightarrow> (slice option \<times> heap) option" where
  "Help_copy_h ls h =
    (case ls of
       None \<Rightarrow> Some (None, h)
     | Some sl \<Rightarrow>
         if len sl = 0 then Some (None, h)
         else (case deref (linkArrs h) (base sl) of
                 None \<Rightarrow> None
               | Some arr \<Rightarrow>
                   if len sl \<le> length arr
                   then Some (Some \<lparr>base = length (linkArrs h), len = len sl\<rparr>,
                              h\<lparr>linkArrs := linkArrs h @ [take (len sl) arr]\<rparr>)
                   else None))"

definition clone_help :: "addr option \<Rightarrow> addr \<Rightarrow> heap \<Rightarrow> heap option" where
  "clone_help href c h =
    (case href of
       None \<Rightarrow> Some h
     | Some p \<Rightarrow>
         (case deref (helpObjs h) p of
            None \<Rightarrow> None
          | Some ls \<Rightarrow>
              (case Help_copy_h ls h of
                 None \<Rightarrow> None
               | Some (ls', h1) \<Rightarrow>
                   upd_err c (\<lambda>x. x\<lparr>s_help := Some (length (helpObjs h1))\<rparr>)
                     (h1\<lparr>helpObjs := helpObjs h1 @ [ls']\<rparr>))))"

text \<open>
  \<^verbatim>\<open>func (d DebugInfo) copy() DebugInfo\<close> and \<^verbatim>\<open>clonedErr.debugInfo = &debugInfoCopy\<close>,
  in the same way.
\<close>

definition DebugInfo_copy_h ::
  "slice option \<Rightarrow> heap \<Rightarrow> (slice option \<times> heap) option" where
  "DebugInfo_copy_h fs h =
    (case fs of
       None \<Rightarrow> Some (None, h)
     | Some sl \<Rightarrow>
         if len sl = 0 then Some (None, h)
         else (case deref (frameArrs h) (base sl) of
                 None \<Rightarrow> None
               | Some arr \<Rightarrow>
                   if len sl \<le> length arr
                   then Some (Some \<lparr>base = length (frameArrs h), len = len sl\<rparr>,
                              h\<lparr>frameArrs := frameArrs h @ [take (len sl) arr]\<rparr>)
                   else None))"

definition clone_debugInfo :: "addr option \<Rightarrow> addr \<Rightarrow> heap \<Rightarrow> heap option" where
  "clone_debugInfo dref c h =
    (case dref of
       None \<Rightarrow> Some h
     | Some p \<Rightarrow>
         (case deref (debugObjs h) p of
            None \<Rightarrow> None
          | Some (fs, d) \<Rightarrow>
              (case DebugInfo_copy_h fs h of
                 None \<Rightarrow> None
               | Some (fs', h1) \<Rightarrow>
                   upd_err c (\<lambda>x. x\<lparr>s_debugInfo := Some (length (debugObjs h1))\<rparr>)
                     (h1\<lparr>debugObjs := debugObjs h1 @ [(fs', d)]\<rparr>))))"

text \<open>
  \<^verbatim>\<open>func (e *TrogonError) copy() *TrogonError\<close>: the struct literal allocates the clone with
  the thirteen fields it lists, the four others being nil, and the four blocks follow.
\<close>

definition copy_h :: "addr \<Rightarrow> heap \<Rightarrow> (addr \<times> heap) option" where
  "copy_h e h =
    (case deref (errObjs h) e of
       None \<Rightarrow> None
     | Some s \<Rightarrow> do {
         let c = length (errObjs h);
         let h0 = h\<lparr>errObjs := errObjs h @ [s\<lparr>s_metadata := None, s_causes := None, s_help := None,
                                          s_debugInfo := None\<rparr>]\<rparr>;
         h1 \<leftarrow> clone_metadata (s_metadata s) c h0;
         h2 \<leftarrow> clone_causes (s_causes s) c h1;
         h3 \<leftarrow> clone_help (s_help s) c h2;
         h4 \<leftarrow> clone_debugInfo (s_debugInfo s) c h3;
         Some (c, h4)
       })"

text \<open>
  \<^verbatim>\<open>func addMetadataValue(e *TrogonError, visibility Visibility, key, value string)\<close> writes
  into the map that the field refers to, after replacing a nil or empty map by a new one.
  \<^term>\<open>map_len\<close> is \<^verbatim>\<open>len(e.metadata)\<close>, which is 0 for the nil map.
\<close>

definition map_len :: "heap \<Rightarrow> addr option \<Rightarrow> nat option" where
  "map_len h mref =
    (case mref of
       None \<Rightarrow> Some 0
     | Some m \<Rightarrow> map_option (\<lambda>md. fcard (fmdom md)) (deref (mapObjs h) m))"

definition addMetadataValue_h ::
  "Visibility \<Rightarrow> string \<Rightarrow> string \<Rightarrow> addr \<Rightarrow> heap \<Rightarrow> heap option" where
  "addMetadataValue_h vis key val e h = do {
     s \<leftarrow> deref (errObjs h) e;
     n \<leftarrow> map_len h (s_metadata s);
     h1 \<leftarrow> (if n = 0
            then upd_err e (\<lambda>x. x\<lparr>s_metadata := Some (length (mapObjs h))\<rparr>)
                   (h\<lparr>mapObjs := mapObjs h @ [fmempty]\<rparr>)
            else Some h);
     s1 \<leftarrow> deref (errObjs h1) e;
     m \<leftarrow> s_metadata s1;
     md \<leftarrow> deref (mapObjs h1) m;
     Some (h1\<lparr>mapObjs := (mapObjs h1)[m := fmupd key \<lparr>mvalue = val, mvisibility = vis\<rparr> md]\<rparr>)
   }"

text \<open>
  The built-in \<^verbatim>\<open>append(s, x)\<close> on a slice of help links. With spare capacity it writes
  \<^verbatim>\<open>x\<close> into the backing array of \<^verbatim>\<open>s\<close>, just after its last element, and returns a longer
  slice of the same array: this write is what a second holder of the array would observe. Without
  spare capacity it allocates a new array, copies the elements and adds \<^verbatim>\<open>x\<close>. How much larger
  the new array is depends on the runtime; here it doubles, and nothing below depends on
  the amount.
\<close>

definition append_link ::
  "slice option \<Rightarrow> HelpLink \<Rightarrow> heap \<Rightarrow> (slice \<times> heap) option" where
  "append_link ls x h =
    (case ls of
       None \<Rightarrow> Some (\<lparr>base = length (linkArrs h), len = 1\<rparr>, h\<lparr>linkArrs := linkArrs h @ [[x]]\<rparr>)
     | Some sl \<Rightarrow>
         (case deref (linkArrs h) (base sl) of
            None \<Rightarrow> None
          | Some arr \<Rightarrow>
              if len sl < length arr
              then Some (sl\<lparr>len := len sl + 1\<rparr>,
                         h\<lparr>linkArrs := (linkArrs h)[base sl := arr[len sl := x]]\<rparr>)
              else if len sl = length arr
              then Some (\<lparr>base = length (linkArrs h), len = len sl + 1\<rparr>,
                         h\<lparr>linkArrs := linkArrs h @
                            [arr @ x # replicate (len sl - 1) \<lparr>description = [], url = []\<rparr>]\<rparr>)
              else None))"

text \<open>
  \<^verbatim>\<open>func addHelpLink(e *TrogonError, description, url string)\<close>: a nil \<^verbatim>\<open>e.help\<close> is replaced
  by a new empty \<^verbatim>\<open>Help\<close>, then \<^verbatim>\<open>e.help.links = append(e.help.links, ...)\<close> writes the
  slice field of the object that \<^verbatim>\<open>e.help\<close> points to.
\<close>

definition addHelpLink_h :: "string \<Rightarrow> string \<Rightarrow> addr \<Rightarrow> heap \<Rightarrow> heap option" where
  "addHelpLink_h d u e h = do {
     s \<leftarrow> deref (errObjs h) e;
     h1 \<leftarrow> (case s_help s of
             None \<Rightarrow>
               upd_err e (\<lambda>x. x\<lparr>s_help := Some (length (helpObjs h))\<rparr>)
                 (h\<lparr>helpObjs := helpObjs h @ [None]\<rparr>)
           | Some p \<Rightarrow> Some h);
     s1 \<leftarrow> deref (errObjs h1) e;
     p \<leftarrow> s_help s1;
     ls \<leftarrow> deref (helpObjs h1) p;
     (sl, h2) \<leftarrow> append_link ls \<lparr>description = d, url = u\<rparr> h1;
     Some (h2\<lparr>helpObjs := (helpObjs h2)[p := Some sl]\<rparr>)
   }"

text \<open>
  The change options, applied to the object at an address. \<^verbatim>\<open>WithChangeMetadata\<close> makes a new
  map and copies the given entries into it; the options on retry information, localized message
  and time store a pointer to a new object.
\<close>

fun apply_change_h :: "ChangeOption \<Rightarrow> addr \<Rightarrow> heap \<Rightarrow> heap option" where
  "apply_change_h (WithChangeMetadata m) e h =
    upd_err e (\<lambda>x. x\<lparr>s_metadata := Some (length (mapObjs h))\<rparr>)
      (h\<lparr>mapObjs := mapObjs h @ [fmempty ++\<^sub>f m]\<rparr>)"
| "apply_change_h (WithChangeMetadataValue vis key val) e h = addMetadataValue_h vis key val e h"
| "apply_change_h (WithChangeMetadataValuef vis key val) e h = addMetadataValue_h vis key val e h"
| "apply_change_h (WithChangeID i) e h = upd_err e (\<lambda>x. x\<lparr>s_id := i\<rparr>) h"
| "apply_change_h (WithChangeTime t) e h = upd_err e (\<lambda>x. x\<lparr>s_time := Some t\<rparr>) h"
| "apply_change_h (WithChangeSourceID s) e h = upd_err e (\<lambda>x. x\<lparr>s_sourceID := s\<rparr>) h"
| "apply_change_h (WithChangeHelpLink d u) e h = addHelpLink_h d u e h"
| "apply_change_h (WithChangeHelpLinkf d u) e h = addHelpLink_h d u e h"
| "apply_change_h (WithChangeRetryInfoDuration d) e h =
    upd_err e (\<lambda>x. x\<lparr>s_retryInfo := Some \<lparr>retryOffset = Some d, retryTime = None\<rparr>\<rparr>) h"
| "apply_change_h (WithChangeRetryTime t) e h =
    upd_err e (\<lambda>x. x\<lparr>s_retryInfo := Some \<lparr>retryOffset = None, retryTime = Some t\<rparr>\<rparr>) h"
| "apply_change_h (WithChangeLocalizedMessage l m) e h =
    upd_err e (\<lambda>x. x\<lparr>s_localizedMessage := Some \<lparr>llocale = l, lmessage = m\<rparr>\<rparr>) h"

fun apply_changes_h :: "ChangeOption list \<Rightarrow> addr \<Rightarrow> heap \<Rightarrow> heap option" where
  "apply_changes_h [] e h = Some h"
| "apply_changes_h (change # changes) e h =
    (case apply_change_h change e h of
       None \<Rightarrow> None
     | Some h' \<Rightarrow> apply_changes_h changes e h')"

text \<open>
  \<^verbatim>\<open>func (e *TrogonError) WithChanges(changes ...ChangeOption) *TrogonError\<close> returns the
  address of the clone, and the store after the changes.
\<close>

definition WithChanges_h :: "addr \<Rightarrow> ChangeOption list \<Rightarrow> heap \<Rightarrow> (addr \<times> heap) option" where
  "WithChanges_h e changes h =
    (case copy_h e h of
       None \<Rightarrow> None
     | Some (c, h') \<Rightarrow>
         (case apply_changes_h changes c h' of None \<Rightarrow> None | Some h'' \<Rightarrow> Some (c, h'')))"

subsection \<open>What isolation means\<close>

text \<open>
  \<^term>\<open>kept h h'\<close>: every object that exists in \<^term>\<open>h\<close> is still there in
  \<^term>\<open>h'\<close>, at the same address and with the same content; \<^term>\<open>h'\<close> may hold more objects.
\<close>

definition kept :: "heap \<Rightarrow> heap \<Rightarrow> bool" where
  "kept h h' =
    (take (length (errObjs h)) (errObjs h') = errObjs h
     \<and> take (length (mapObjs h)) (mapObjs h') = mapObjs h
     \<and> take (length (helpObjs h)) (helpObjs h') = helpObjs h
     \<and> take (length (linkArrs h)) (linkArrs h') = linkArrs h
     \<and> take (length (debugObjs h)) (debugObjs h') = debugObjs h
     \<and> take (length (frameArrs h)) (frameArrs h') = frameArrs h
     \<and> take (length (causeArrs h)) (causeArrs h') = causeArrs h)"

text \<open>
  A reference is fresh when it is nil or leads to an object allocated after the store
  had \<^term>\<open>n\<close> objects of that kind. For a slice the backing array is fresh; for a
  \<^verbatim>\<open>Help\<close> or a \<^verbatim>\<open>DebugInfo\<close> the object is fresh and so is the backing array of
  its slice.
\<close>

definition fresh_ref :: "nat \<Rightarrow> nat \<Rightarrow> addr option \<Rightarrow> bool" where
  "fresh_ref n k r = (case r of None \<Rightarrow> True | Some a \<Rightarrow> n \<le> a \<and> a < k)"

definition fresh_slice :: "nat \<Rightarrow> 'a list list \<Rightarrow> slice option \<Rightarrow> bool" where
  "fresh_slice n arrs s =
    (case s of
       None \<Rightarrow> True
     | Some sl \<Rightarrow>
         n \<le> base sl \<and>
         (case deref arrs (base sl) of None \<Rightarrow> False | Some arr \<Rightarrow> len sl \<le> length arr))"

definition fresh_help ::
  "nat \<Rightarrow> slice option list \<Rightarrow> nat \<Rightarrow> HelpLink list list \<Rightarrow> addr option \<Rightarrow> bool" where
  "fresh_help n hs nl arrs r =
    (case r of
       None \<Rightarrow> True
     | Some p \<Rightarrow>
         n \<le> p \<and> (case deref hs p of None \<Rightarrow> False | Some ls \<Rightarrow> fresh_slice nl arrs ls))"

definition fresh_debug ::
  "nat \<Rightarrow> (slice option \<times> string) list \<Rightarrow> nat \<Rightarrow> Frame list list \<Rightarrow> addr option \<Rightarrow> bool"
  where
  "fresh_debug n ds nf arrs r =
    (case r of
       None \<Rightarrow> True
     | Some p \<Rightarrow>
         n \<le> p \<and>
         (case deref ds p of None \<Rightarrow> False | Some (fs, d) \<Rightarrow> fresh_slice nf arrs fs))"

text \<open>
  \<^term>\<open>owned h0 c h\<close>: the error at \<^term>\<open>c\<close> did not exist in \<^term>\<open>h0\<close>, and each of
  its mutable parts (the map, the array of causes, the help with its links, the debug
  information with its frames) is nil or did not exist in \<^term>\<open>h0\<close> either. So no
  write through \<^term>\<open>c\<close> can reach an object of \<^term>\<open>h0\<close>.
\<close>

definition owned :: "heap \<Rightarrow> addr \<Rightarrow> heap \<Rightarrow> bool" where
  "owned h0 c h =
    (length (errObjs h0) \<le> c \<and>
     (case deref (errObjs h) c of
        None \<Rightarrow> False
      | Some s \<Rightarrow>
          fresh_ref (length (mapObjs h0)) (length (mapObjs h)) (s_metadata s)
          \<and> fresh_slice (length (causeArrs h0)) (causeArrs h) (s_causes s)
          \<and> fresh_help (length (helpObjs h0)) (helpObjs h) (length (linkArrs h0)) (linkArrs h)
               (s_help s)
          \<and> fresh_debug (length (debugObjs h0)) (debugObjs h) (length (frameArrs h0)) (frameArrs h)
               (s_debugInfo s)))"

text \<open>The invariant of the clone while the change options run.\<close>

definition isolated :: "heap \<Rightarrow> addr \<Rightarrow> heap \<Rightarrow> bool" where
  "isolated h0 c h = (kept h0 h \<and> owned h0 c h)"

text \<open>
  An error is well formed in a store when each of its references leads to an allocated
  object and each slice fits in its backing array; this holds of every error that the
  package builds.
\<close>

definition wf_slice :: "'a list list \<Rightarrow> slice option \<Rightarrow> bool" where
  "wf_slice arrs s =
    (case s of
       None \<Rightarrow> True
     | Some sl \<Rightarrow>
         (case deref arrs (base sl) of None \<Rightarrow> False | Some arr \<Rightarrow> len sl \<le> length arr))"

definition wf_fields :: "heap \<Rightarrow> TrogonErrorS \<Rightarrow> bool" where
  "wf_fields h s =
    ((case s_metadata s of None \<Rightarrow> True | Some m \<Rightarrow> m < length (mapObjs h))
     \<and> wf_slice (causeArrs h) (s_causes s)
     \<and> (case s_help s of
           None \<Rightarrow> True
         | Some p \<Rightarrow>
             (case deref (helpObjs h) p of None \<Rightarrow> False | Some ls \<Rightarrow> wf_slice (linkArrs h) ls))
     \<and> (case s_debugInfo s of
           None \<Rightarrow> True
         | Some p \<Rightarrow>
             (case deref (debugObjs h) p of
                None \<Rightarrow> False
              | Some (fs, d) \<Rightarrow> wf_slice (frameArrs h) fs)))"

definition wf_err :: "heap \<Rightarrow> addr \<Rightarrow> bool" where
  "wf_err h e = (case deref (errObjs h) e of None \<Rightarrow> False | Some s \<Rightarrow> wf_fields h s)"

text \<open>
  What can be observed of an error through its pointer: the fields of the struct, the
  entries of its map, its help links, its stack frames with the detail, and its cause
  pointers.
\<close>

definition elems :: "'a list list \<Rightarrow> slice option \<Rightarrow> 'a list option" where
  "elems arrs s =
    (case s of
       None \<Rightarrow> Some []
     | Some sl \<Rightarrow> map_option (take (len sl)) (deref arrs (base sl)))"

definition metadata_of :: "heap \<Rightarrow> TrogonErrorS \<Rightarrow> Metadata option" where
  "metadata_of h s = (case s_metadata s of None \<Rightarrow> Some fmempty | Some m \<Rightarrow> deref (mapObjs h) m)"

definition links_of :: "heap \<Rightarrow> TrogonErrorS \<Rightarrow> HelpLink list option" where
  "links_of h s =
    (case s_help s of
       None \<Rightarrow> Some []
     | Some p \<Rightarrow> (case deref (helpObjs h) p of None \<Rightarrow> None | Some ls \<Rightarrow> elems (linkArrs h) ls))"

definition debug_of :: "heap \<Rightarrow> TrogonErrorS \<Rightarrow> (Frame list \<times> string) option option" where
  "debug_of h s =
    (case s_debugInfo s of
       None \<Rightarrow> Some None
     | Some p \<Rightarrow>
         (case deref (debugObjs h) p of
            None \<Rightarrow> None
          | Some (fs, d) \<Rightarrow> map_option (\<lambda>frames. Some (frames, d)) (elems (frameArrs h) fs)))"

definition causes_of :: "heap \<Rightarrow> TrogonErrorS \<Rightarrow> addr option list option" where
  "causes_of h s = elems (causeArrs h) (s_causes s)"

definition view ::
  "heap \<Rightarrow> addr \<Rightarrow>
    (TrogonErrorS \<times> Metadata option \<times> HelpLink list option
      \<times> (Frame list \<times> string) option option \<times> addr option list option) option" where
  "view h e =
    map_option (\<lambda>s. (s, metadata_of h s, links_of h s, debug_of h s, causes_of h s))
      (deref (errObjs h) e)"

text \<open>
  The error behind a pointer, read as a value of the kind the earlier sections compute with:
  the fields of the struct, the entries of its map (none for the nil map), its help with the
  links that its slice covers, and its debug information with its frames. The causes are
  pointers, so they are given beside the value as the list of addresses that the slice
  \<^verbatim>\<open>causes\<close> covers, and the value itself carries no cause. The result is
  \<^term>\<open>None\<close> when a reference of the error leads nowhere.
\<close>

definition help_of :: "heap \<Rightarrow> TrogonErrorS \<Rightarrow> Help option option" where
  "help_of h s =
    (case s_help s of
       None \<Rightarrow> Some None
     | Some p \<Rightarrow> map_option (\<lambda>xs. Some \<lparr>links = xs\<rparr>) (links_of h s))"

definition debugInfo_of :: "heap \<Rightarrow> TrogonErrorS \<Rightarrow> DebugInfo option option" where
  "debugInfo_of h s =
    map_option (map_option (\<lambda>(frames, d). \<lparr>stackFrames = frames, detail = d\<rparr>)) (debug_of h s)"

definition struct_value ::
  "TrogonErrorS \<Rightarrow> Metadata \<Rightarrow> Help option \<Rightarrow> DebugInfo option \<Rightarrow> TrogonError" where
  "struct_value s md hp di =
    TrogonError (s_specVersion s) (s_code s) (s_message s) (s_domain s) (s_reason s) md []
      (s_visibility s) (s_subject s) (s_id s) (s_time s) hp di (s_localizedMessage s)
      (s_retryInfo s) (s_sourceID s) (s_wrappedErr s)"

definition value_of :: "heap \<Rightarrow> addr \<Rightarrow> (TrogonError \<times> addr option list) option" where
  "value_of h e = do {
     s \<leftarrow> deref (errObjs h) e;
     md \<leftarrow> metadata_of h s;
     hp \<leftarrow> help_of h s;
     di \<leftarrow> debugInfo_of h s;
     cs \<leftarrow> causes_of h s;
     Some (struct_value s md hp di, cs)
   }"

text \<open>
  A store to run the functions on. At address 0 lies an error that is the cause of the error at
  address 1. The latter has one metadata entry, one help link in a backing array of capacity
  two (so that appending a link to a slice of this array would write into it), and debug
  information with one frame.
\<close>

definition example_store :: heap where
  "example_store =
    \<lparr>errObjs =
       [\<lparr>s_specVersion = 1, s_code = CodeInternal, s_message = [], s_domain = ''db'',
          s_reason = ''DOWN'', s_metadata = None, s_causes = None,
          s_visibility = VisibilityInternal, s_subject = [], s_id = [], s_time = None,
          s_help = None, s_debugInfo = None, s_localizedMessage = None, s_retryInfo = None,
          s_sourceID = [], s_wrappedErr = None\<rparr>,
        \<lparr>s_specVersion = 1, s_code = CodeUnavailable, s_message = [], s_domain = ''shop'',
          s_reason = ''BUSY'', s_metadata = Some 0, s_causes = Some \<lparr>base = 0, len = 1\<rparr>,
          s_visibility = VisibilityInternal, s_subject = [], s_id = [], s_time = None,
          s_help = Some 0, s_debugInfo = Some 0, s_localizedMessage = None, s_retryInfo = None,
          s_sourceID = [], s_wrappedErr = None\<rparr>],
     mapObjs = [fmupd ''k'' \<lparr>mvalue = ''v'', mvisibility = VisibilityPublic\<rparr> fmempty],
     helpObjs = [Some \<lparr>base = 0, len = 1\<rparr>],
     linkArrs = [[\<lparr>description = ''Docs'', url = ''u''\<rparr>, \<lparr>description = [], url = []\<rparr>]],
     debugObjs = [(Some \<lparr>base = 0, len = 1\<rparr>, ''boom'')],
     frameArrs = [[\<lparr>File = ''a.go'', Line = 7, Function = ''f''\<rparr>]],
     causeArrs = [[Some 0]]\<rparr>"

section \<open>Basic facts\<close>

section \<open>Status mapping\<close>

text \<open>
  C6. \<^verbatim>\<open>Code.HttpStatusCode()\<close> is a fixed table over the 16 declared codes, in which
  NOT_FOUND gives 404, RESOURCE_EXHAUSTED gives 429 and UNAUTHENTICATED gives 401, and every
  value that is not one of the 16 declared codes gives 500, the status of the unknown kind.
\<close>

theorem HttpStatusCode_table:
  "length all_codes = 16 \<and> distinct all_codes
   \<and> map HttpStatusCode all_codes =
       [499, 500, 400, 504, 404, 409, 403, 429, 400, 409, 400, 501, 500, 503, 500, 401]
   \<and> HttpStatusCode CodeNotFound = 404
   \<and> HttpStatusCode CodeResourceExhausted = 429
   \<and> HttpStatusCode CodeUnauthenticated = 401
   \<and> (\<forall>c. c \<notin> set all_codes \<longrightarrow> HttpStatusCode c = HttpStatusCode CodeUnknown)
   \<and> HttpStatusCode CodeUnknown = 500"
  by (simp add: HttpStatusCode_def all_codes_def)

theorem HttpStatusCode_table_witness:
  "(999::int) \<notin> set all_codes \<and> HttpStatusCode 999 = 500"
proof -
  have out: "(999::int) \<notin> set all_codes"
    by (simp add: all_codes_def)
  from HttpStatusCode_table have
    fallback: "\<forall>c. c \<notin> set all_codes \<longrightarrow> HttpStatusCode c = HttpStatusCode CodeUnknown"
    and unknown: "HttpStatusCode CodeUnknown = 500"
    by blast+
  from fallback out have "HttpStatusCode 999 = HttpStatusCode CodeUnknown"
    by blast
  with unknown out show ?thesis
    by simp
qed

section \<open>Basic facts about options\<close>

lemma apply_options_append:
  "apply_options (xs @ ys) e = apply_options ys (apply_options xs e)"
  by (induction xs arbitrary: e) simp_all

lemma apply_changes_append:
  "apply_changes (xs @ ys) e = apply_changes ys (apply_changes xs e)"
  by (induction xs arbitrary: e) simp_all

lemma NewError_append:
  "NewError d r (xs @ ys) = apply_options ys (NewError d r xs)"
  by (simp add: NewError_def apply_options_append)

lemma fmdom_empty_iff: "fmdom m = {||} \<longleftrightarrow> m = fmempty"
proof
  assume "fmdom m = {||}"
  then have "fmlookup m x = None" for x
    by (simp add: fmdom_notD)
  then show "m = fmempty"
    by (intro fmap_ext) simp
qed simp

lemma Help_copy_id [simp]: "Help_copy h = h"
  by (simp add: Help_copy_def)

lemma DebugInfo_copy_id [simp]: "DebugInfo_copy d = d"
  by (simp add: DebugInfo_copy_def)

lemma map_option_Help_copy [simp]: "map_option Help_copy x = x"
  by (cases x) simp_all

lemma map_option_DebugInfo_copy [simp]: "map_option DebugInfo_copy x = x"
  by (cases x) simp_all

text \<open>As a value, the copy has the fields of the original.\<close>

lemma copy_value [simp]: "copy e = e"
  by (cases e) (simp add: copy_def fmdom_empty_iff)

lemma apply_option_identity [simp]:
  "domain (apply_option opt e) = domain e"
  "reason (apply_option opt e) = reason e"
  "specVersion (apply_option opt e) = specVersion e"
  by (cases opt;
      simp add: setters addHelpLink_def addMetadataValue_def Let_def split: option.split)+

lemma apply_options_identity [simp]:
  "domain (apply_options opts e) = domain e"
  "reason (apply_options opts e) = reason e"
  "specVersion (apply_options opts e) = specVersion e"
  by (induction opts arbitrary: e) simp_all

lemma NewError_identity [simp]:
  "domain (NewError d r opts) = d" "reason (NewError d r opts) = r"
  by (simp_all add: NewError_def)

lemma apply_change_identity [simp]:
  "domain (apply_change c e) = domain e" "reason (apply_change c e) = reason e"
  by (cases c;
      simp add: setters addHelpLink_def addMetadataValue_def Let_def split: option.split)+

lemma apply_changes_identity [simp]:
  "domain (apply_changes cs e) = domain e" "reason (apply_changes cs e) = reason e"
  by (induction cs arbitrary: e) simp_all

section \<open>Identity comparison\<close>

text \<open>
  C1. For two errors \<open>a\<close> and \<open>b\<close> of the package, \<open>b\<close> passed by pointer or by value,
  \<^verbatim>\<open>a.Is(b)\<close> is true exactly when the domains are equal and the reasons are equal; no other
  field takes part. In particular two errors built by \<^verbatim>\<open>NewError\<close> are identical exactly
  when they were given the same domain and reason, whatever their options.
\<close>

theorem Is_identity:
  "Is a (Some (PtrTrogon b)) = (domain a = domain b \<and> reason a = reason b)
   \<and> Is a (Some (ValTrogon b)) = (domain a = domain b \<and> reason a = reason b)
   \<and> Is (NewError d r opts) (Some (PtrTrogon (NewError d' r' opts'))) = (d = d' \<and> r = r')"
  by (simp add: Is.simps(1))

theorem Is_identity_witness:
  "Is (NewError ''shopify.users'' ''NOT_FOUND'' [WithMessage ''gone'', WithID ''1''])
      (Some (PtrTrogon (NewError ''shopify.users'' ''NOT_FOUND'' [WithCode CodeNotFound])))
   \<and> \<not> Is (NewError ''shopify.users'' ''NOT_FOUND'' [])
      (Some (ValTrogon (NewError ''shopify.users'' ''EXPIRED'' [])))"
  using
    Is_identity [of "NewError ''shopify.users'' ''NOT_FOUND'' [WithMessage ''gone'', WithID ''1'']"
      "NewError ''shopify.users'' ''NOT_FOUND'' [WithCode CodeNotFound]"]
    Is_identity [of "NewError ''shopify.users'' ''NOT_FOUND'' []"
      "NewError ''shopify.users'' ''EXPIRED'' []"]
  by simp

section \<open>Replacing and accumulating metadata\<close>

text \<open>
  C10. \<^verbatim>\<open>WithChangeMetadata(m)\<close> replaces the metadata: after it the metadata of the result
  is exactly \<open>m\<close>, so a key of the receiver that \<open>m\<close> does not have is absent. The option
  \<^verbatim>\<open>WithMetadata(m)\<close> of the constructor adds the entries of \<open>m\<close> to the metadata built so
  far, and keeps every key already there.
\<close>

theorem WithChangeMetadata_replaces:
  "metadata (WithChanges e (changes @ [WithChangeMetadata m])) = m
   \<and> (\<forall>k. k |\<in>| fmdom (metadata e) \<and> k |\<notin>| fmdom m \<longrightarrow>
          k |\<notin>| fmdom (metadata (WithChanges e [WithChangeMetadata m])))
   \<and> metadata (NewError d r (opts @ [WithMetadata m])) = metadata (NewError d r opts) ++\<^sub>f m
   \<and> (\<forall>k. k |\<in>| fmdom (metadata (NewError d r opts)) \<longrightarrow>
          k |\<in>| fmdom (metadata (NewError d r (opts @ [WithMetadata m]))))"
  by (simp add: apply_changes_append NewError_append setters WithChanges_def)

theorem WithChangeMetadata_replaces_witness:
  "''legacyCustomerId'' |\<in>|
      fmdom (metadata (NewError ''shopify.cache'' ''CACHE_MISS''
        [WithMetadataValue VisibilityPublic ''legacyCustomerId'' ''cust_legacy_123456'']))
   \<and> ''legacyCustomerId'' |\<notin>|
      fmdom (fmupd ''customerId'' \<lparr>mvalue = ''1234567890'', mvisibility = VisibilityPrivate\<rparr> fmempty)
   \<and> ''legacyCustomerId'' |\<notin>|
      fmdom (metadata (WithChanges
        (NewError ''shopify.cache'' ''CACHE_MISS''
          [WithMetadataValue VisibilityPublic ''legacyCustomerId'' ''cust_legacy_123456''])
        [WithChangeMetadata
          (fmupd ''customerId'' \<lparr>mvalue = ''1234567890'', mvisibility = VisibilityPrivate\<rparr>
            fmempty)]))
   \<and> ''legacyCustomerId'' |\<in>|
      fmdom (metadata (NewError ''shopify.cache'' ''CACHE_MISS''
        ([WithMetadataValue VisibilityPublic ''legacyCustomerId'' ''cust_legacy_123456'']
         @ [WithMetadata
             (fmupd ''customerId'' \<lparr>mvalue = ''1234567890'', mvisibility = VisibilityPrivate\<rparr>
               fmempty)])))"
proof -
  let ?e = "NewError ''shopify.cache'' ''CACHE_MISS''
        [WithMetadataValue VisibilityPublic ''legacyCustomerId'' ''cust_legacy_123456'']"
  let ?m = "fmupd ''customerId'' \<lparr>mvalue = ''1234567890'', mvisibility = VisibilityPrivate\<rparr>
      fmempty"
  have old: "''legacyCustomerId'' |\<in>| fmdom (metadata ?e)"
    by (simp add: NewError_def addMetadataValue_def setters)
  have new: "''legacyCustomerId'' |\<notin>| fmdom ?m"
    by simp
  note inst = WithChangeMetadata_replaces
    [of ?e "[]" ?m "''shopify.cache''" "''CACHE_MISS''"
      "[WithMetadataValue VisibilityPublic ''legacyCustomerId'' ''cust_legacy_123456'']"]
  from inst old new have gone:
    "''legacyCustomerId'' |\<notin>| fmdom (metadata (WithChanges ?e [WithChangeMetadata ?m]))"
    by blast
  from inst old have kept:
    "''legacyCustomerId'' |\<in>| fmdom (metadata (NewError ''shopify.cache'' ''CACHE_MISS''
        ([WithMetadataValue VisibilityPublic ''legacyCustomerId'' ''cust_legacy_123456'']
         @ [WithMetadata ?m])))"
    by blast
  from old new gone kept show ?thesis
    by blast
qed

section \<open>Retry information\<close>

lemma apply_option_no_retry:
  "\<not> is_retry_option opt \<Longrightarrow> retryInfo (apply_option opt e) = retryInfo e"
  by (cases opt;
      simp add: setters addHelpLink_def addMetadataValue_def Let_def split: option.split)

lemma apply_options_no_retry:
  "\<forall>opt \<in> set opts. \<not> is_retry_option opt \<Longrightarrow>
    retryInfo (apply_options opts e) = retryInfo e"
  by (induction opts arbitrary: e) (simp_all add: apply_option_no_retry)

lemma apply_change_no_retry:
  "\<not> is_retry_change c \<Longrightarrow> retryInfo (apply_change c e) = retryInfo e"
  by (cases c;
      simp add: setters addHelpLink_def addMetadataValue_def Let_def split: option.split)

lemma apply_changes_no_retry:
  "\<forall>c \<in> set cs. \<not> is_retry_change c \<Longrightarrow> retryInfo (apply_changes cs e) = retryInfo e"
  by (induction cs arbitrary: e) (simp_all add: apply_change_no_retry)

lemma apply_option_retry:
  assumes "retry_exclusive (retryInfo e)"
  shows "retry_exclusive (retryInfo (apply_option opt e))"
proof (cases "is_retry_option opt")
  case False
  with assms show ?thesis
    by (simp add: apply_option_no_retry del: apply_option.simps)
next
  case True
  then show ?thesis
    by (cases opt) (simp_all add: setters retry_exclusive_def)
qed

lemma apply_options_retry:
  "retry_exclusive (retryInfo e) \<Longrightarrow> retry_exclusive (retryInfo (apply_options opts e))"
  by (induction opts arbitrary: e) (simp_all add: apply_option_retry)

lemma apply_change_retry:
  assumes "retry_exclusive (retryInfo e)"
  shows "retry_exclusive (retryInfo (apply_change c e))"
proof (cases "is_retry_change c")
  case False
  with assms show ?thesis
    by (simp add: apply_change_no_retry del: apply_change.simps)
next
  case True
  then show ?thesis
    by (cases c) (simp_all add: setters retry_exclusive_def)
qed

lemma apply_changes_retry:
  "retry_exclusive (retryInfo e) \<Longrightarrow> retry_exclusive (retryInfo (apply_changes cs e))"
  by (induction cs arbitrary: e) (simp_all add: apply_change_retry)

lemma reachable_retry: "reachable e \<Longrightarrow> retry_exclusive (retryInfo e)"
proof (induction rule: reachable.induct)
  case (new d r opts)
  show ?case
    unfolding NewError_def by (rule apply_options_retry) (simp add: retry_exclusive_def)
next
  case (template et opts)
  show ?case
    unfolding Template_NewError_def NewError_def
    by (rule apply_options_retry) (simp add: retry_exclusive_def)
next
  case (changes e cs)
  then show ?case
    by (simp add: WithChanges_def apply_changes_retry)
qed

text \<open>
  C5. The retry info of an error obtained from \<^verbatim>\<open>NewError\<close>, from a template or from
  \<^verbatim>\<open>WithChanges\<close> is absent or holds exactly one of \<^verbatim>\<open>retryOffset\<close> and \<^verbatim>\<open>retryTime\<close>. The
  retry option applied last decides: whatever was applied before it, a duration option leaves
  the offset alone and a time option leaves the time alone, in a construction (direct or from a
  template) and in a list of changes.
\<close>

theorem retryInfo_exclusive:
  "(reachable e \<longrightarrow> retry_exclusive (retryInfo e))
   \<and> ((\<forall>opt \<in> set after. \<not> is_retry_option opt) \<longrightarrow>
        retryInfo (NewError d r (before @ [WithRetryInfoDuration off] @ after))
          = Some \<lparr>retryOffset = Some off, retryTime = None\<rparr>
      \<and> retryInfo (NewError d r (before @ [WithRetryTime t] @ after))
          = Some \<lparr>retryOffset = None, retryTime = Some t\<rparr>
      \<and> retryInfo (Template_NewError et (before @ [WithRetryInfoDuration off] @ after))
          = Some \<lparr>retryOffset = Some off, retryTime = None\<rparr>
      \<and> retryInfo (Template_NewError et (before @ [WithRetryTime t] @ after))
          = Some \<lparr>retryOffset = None, retryTime = Some t\<rparr>)
   \<and> ((\<forall>c \<in> set cafter. \<not> is_retry_change c) \<longrightarrow>
        retryInfo (WithChanges e (cbefore @ [WithChangeRetryInfoDuration off] @ cafter))
          = Some \<lparr>retryOffset = Some off, retryTime = None\<rparr>
      \<and> retryInfo (WithChanges e (cbefore @ [WithChangeRetryTime t] @ cafter))
          = Some \<lparr>retryOffset = None, retryTime = Some t\<rparr>)"
  by (simp add: reachable_retry NewError_append Template_NewError_def apply_options_append
      apply_changes_append WithChanges_def apply_options_no_retry apply_changes_no_retry setters
      del: append_assoc flip: append_assoc)

theorem retryInfo_exclusive_witness:
  "reachable (NewError ''shopify.api'' ''RATE_LIMIT_EXCEEDED''
      ([WithRetryInfoDuration (Duration ''1m0s'')]
       @ [WithRetryTime (Time ''2024-01-15T14:35:45Z'')] @ [WithID ''x'']))
   \<and> retry_exclusive (retryInfo (NewError ''shopify.api'' ''RATE_LIMIT_EXCEEDED''
      ([WithRetryInfoDuration (Duration ''1m0s'')]
       @ [WithRetryTime (Time ''2024-01-15T14:35:45Z'')] @ [WithID ''x''])))
   \<and> retryInfo (NewError ''shopify.api'' ''RATE_LIMIT_EXCEEDED''
      ([WithRetryInfoDuration (Duration ''1m0s'')]
       @ [WithRetryTime (Time ''2024-01-15T14:35:45Z'')] @ [WithID ''x'']))
     = Some \<lparr>retryOffset = None, retryTime = Some (Time ''2024-01-15T14:35:45Z'')\<rparr>
   \<and> retryInfo (WithChanges (NewError ''shopify.api'' ''RATE_LIMIT_EXCEEDED''
      ([WithRetryInfoDuration (Duration ''1m0s'')]
       @ [WithRetryTime (Time ''2024-01-15T14:35:45Z'')] @ [WithID ''x'']))
       ([] @ [WithChangeRetryInfoDuration (Duration ''5s'')] @ [WithChangeID ''y'']))
     = Some \<lparr>retryOffset = Some (Duration ''5s''), retryTime = None\<rparr>"
proof -
  let ?e = "NewError ''shopify.api'' ''RATE_LIMIT_EXCEEDED''
      ([WithRetryInfoDuration (Duration ''1m0s'')]
       @ [WithRetryTime (Time ''2024-01-15T14:35:45Z'')] @ [WithID ''x''])"
  have r: "reachable ?e"
    by (rule reachable.new)
  have a: "\<forall>opt \<in> set [WithID ''x'']. \<not> is_retry_option opt"
    by simp
  have c: "\<forall>c \<in> set [WithChangeID ''y'']. \<not> is_retry_change c"
    by simp
  note inst = retryInfo_exclusive
    [where e = ?e and after = "[WithID ''x'']" and d = "''shopify.api''"
       and r = "''RATE_LIMIT_EXCEEDED''" and before = "[WithRetryInfoDuration (Duration ''1m0s'')]"
       and t = "Time ''2024-01-15T14:35:45Z''" and off = "Duration ''5s''"
       and cafter = "[WithChangeID ''y'']" and cbefore = "[]"]
  from inst r a c show ?thesis
    by blast
qed

section \<open>Order of options\<close>


lemma metadata_or_fresh [simp]: "(if fmdom m = {||} then fmempty else m) = m"
  by (simp add: fmdom_empty_iff)

lemma addMetadataValue_eq:
  "addMetadataValue vis key val e =
    set_metadata (fmupd key \<lparr>mvalue = val, mvisibility = vis\<rparr> (metadata e)) e"
  by (simp add: addMetadataValue_def)















section \<open>Errors from a template\<close>














section \<open>Rendering of an error without optional fields\<close>

lemma split_lines_nonempty [simp]: "split_lines s \<noteq> []"
  by (induction s) (auto split: list.split)

lemma split_lines_no_NL: "NL \<notin> set a \<Longrightarrow> split_lines a = [a]"
  by (induction a) auto

lemma split_lines_append: "NL \<notin> set a \<Longrightarrow> split_lines (a @ NL # b) = a # split_lines b"
  by (induction a) auto

lemma Visibility_String_no_NL [simp]: "NL \<notin> set (Visibility_String v)"
  by (simp add: Visibility_String_def)

lemma Code_String_no_NL [simp]: "NL \<notin> set (Code_String c)"
  by (simp add: Code_String_def)

lemma Error_optional_empty:
  assumes "optional_empty e"
  shows "Error e = TrimSpace (Message e) @ fixedLines e"
proof -
  from assms have "optionalLines e = []" "retryLine e = []" "metadataLines e = []"
    "helpLines e = []" "debugLines e = []" "wrappedErr e = None"
    by (auto simp add: optional_empty_def optionalLines_def retryLine_def metadataLines_def
        helpLines_def debugLines_def helpLinks_def split: option.splits)
  then show ?thesis
    by (simp add: Error.simps(1))
qed

text \<open>
  C3, as the source has it. For an error without optional fields \<^verbatim>\<open>Error()\<close> returns the
  message (the default message of the code when the message is empty) with the surrounding
  white space trimmed, followed by the visibility, the domain, the reason and the code, each
  after a line feed, in this order and nothing else. These are exactly 5 lines when the trimmed
  message, the domain and the reason contain no line feed. The function is total.
\<close>

theorem Error_five_lines:
  "optional_empty e \<longrightarrow>
     Error e = TrimSpace (Message e)
       @ NL # ''  visibility: '' @ Visibility_String (visibility e)
       @ NL # ''  domain: '' @ domain e
       @ NL # ''  reason: '' @ reason e
       @ NL # ''  code: '' @ Code_String (code e)
     \<and> Message e = (if message e = [] then Code_Message (code e) else message e)
     \<and> (NL \<notin> set (TrimSpace (Message e)) \<and> NL \<notin> set (domain e) \<and> NL \<notin> set (reason e) \<longrightarrow>
          split_lines (Error e) =
            [TrimSpace (Message e),
             ''  visibility: '' @ Visibility_String (visibility e),
             ''  domain: '' @ domain e,
             ''  reason: '' @ reason e,
             ''  code: '' @ Code_String (code e)])"
proof (intro impI conjI)
  assume oe: "optional_empty e"
  show rendered: "Error e = TrimSpace (Message e)
       @ NL # ''  visibility: '' @ Visibility_String (visibility e)
       @ NL # ''  domain: '' @ domain e
       @ NL # ''  reason: '' @ reason e
       @ NL # ''  code: '' @ Code_String (code e)"
    using Error_optional_empty [OF oe] by (simp add: fixedLines_def)
  show "Message e = (if message e = [] then Code_Message (code e) else message e)"
    by (simp add: Message_def)
  assume nl: "NL \<notin> set (TrimSpace (Message e)) \<and> NL \<notin> set (domain e) \<and> NL \<notin> set (reason e)"
  define t where "t = TrimSpace (Message e)"
  define l1 where "l1 = ''  visibility: '' @ Visibility_String (visibility e)"
  define l2 where "l2 = ''  domain: '' @ domain e"
  define l3 where "l3 = ''  reason: '' @ reason e"
  define l4 where "l4 = ''  code: '' @ Code_String (code e)"
  have free: "NL \<notin> set t" "NL \<notin> set l1" "NL \<notin> set l2" "NL \<notin> set l3" "NL \<notin> set l4"
    using nl by (simp_all add: t_def l1_def l2_def l3_def l4_def)
  have "Error e = t @ NL # l1 @ NL # l2 @ NL # l3 @ NL # l4"
    using rendered by (simp add: t_def l1_def l2_def l3_def l4_def)
  then have "split_lines (Error e) = [t, l1, l2, l3, l4]"
    using free by (simp add: split_lines_append split_lines_no_NL del: split_lines.simps)
  then show "split_lines (Error e) =
            [TrimSpace (Message e),
             ''  visibility: '' @ Visibility_String (visibility e),
             ''  domain: '' @ domain e,
             ''  reason: '' @ reason e,
             ''  code: '' @ Code_String (code e)]"
    by (simp only: t_def l1_def l2_def l3_def l4_def)
qed

theorem Error_five_lines_witness:
  "optional_empty (NewError ''shopify.core'' ''SYSTEM_ERROR'' [])
   \<and> split_lines (Error (NewError ''shopify.core'' ''SYSTEM_ERROR'' [])) =
       [''unknown error'', ''  visibility: INTERNAL'', ''  domain: shopify.core'',
        ''  reason: SYSTEM_ERROR'', ''  code: UNKNOWN'']"
proof -
  let ?e = "NewError ''shopify.core'' ''SYSTEM_ERROR'' []"
  have oe: "optional_empty ?e"
    by (simp add: optional_empty_def NewError_def helpLinks_def)
  have msg: "TrimSpace (Message ?e) = ''unknown error''"
    by code_simp
  have parts: "visibility ?e = VisibilityInternal" "code ?e = CodeUnknown"
    "domain ?e = ''shopify.core''" "reason ?e = ''SYSTEM_ERROR''"
    by (simp_all add: NewError_def)
  from Error_five_lines [of ?e] oe have
    "NL \<notin> set (TrimSpace (Message ?e)) \<and> NL \<notin> set (domain ?e) \<and> NL \<notin> set (reason ?e) \<longrightarrow>
      split_lines (Error ?e) =
        [TrimSpace (Message ?e),
         ''  visibility: '' @ Visibility_String (visibility ?e),
         ''  domain: '' @ domain ?e,
         ''  reason: '' @ reason ?e,
         ''  code: '' @ Code_String (code ?e)]"
    by blast
  with oe msg parts show ?thesis
    by (simp add: Visibility_String_def Code_String_def)
qed

text \<open>
  C3, as the spec states it, fails for a message of two lines: the error has no optional
  field, its rendering has 6 lines, and its first line is not the message.
\<close>

theorem Error_five_lines_counterexample:
  "optional_empty (NewError ''d'' ''r'' [WithMessage (''a'' @ [NL] @ ''b'')])
   \<and> length (split_lines (Error (NewError ''d'' ''r'' [WithMessage (''a'' @ [NL] @ ''b'')]))) = 6
   \<and> split_lines (Error (NewError ''d'' ''r'' [WithMessage (''a'' @ [NL] @ ''b'')])) ! 0 = ''a''
   \<and> TrimSpace (Message (NewError ''d'' ''r'' [WithMessage (''a'' @ [NL] @ ''b'')]))
       = ''a'' @ [NL] @ ''b''"
  by code_simp

section \<open>Rendering of the metadata\<close>

lemma sortedKeys_set [simp]: "set (sortedKeys m) = fset (fmdom m)"
  by (simp add: sortedKeys_def)

lemma sortedKeys_sorted: "sorted_wrt (<) (sortedKeys m)"
  by (simp add: sortedKeys_def sorted_list_of_fset.rep_eq)

lemma metadataEntry_entryText:
  "k |\<in>| fmdom m \<Longrightarrow> metadataEntry m k = NL # entryText k (the (fmlookup m k))"
  by (auto simp add: metadataEntry_def entryText_def index_metadata_def fmlookup_dom_iff)

lemma metadataLines_text:
  assumes "fmdom (metadata e) \<noteq> {||}"
  shows "metadataLines e =
    NL # ''  metadata:''
    @ concat (map (\<lambda>k. NL # entryText k (the (fmlookup (metadata e) k)))
                  (sortedKeys (metadata e)))"
proof -
  have eq: "map (metadataEntry (metadata e)) (sortedKeys (metadata e))
      = map (\<lambda>k. NL # entryText k (the (fmlookup (metadata e) k))) (sortedKeys (metadata e))"
    by (rule map_cong) (simp_all add: metadataEntry_entryText)
  from assms show ?thesis
    by (simp add: metadataLines_def eq)
qed

lemma split_lines_records:
  "NL \<notin> set h \<Longrightarrow> \<forall>l \<in> set ls. NL \<notin> set l \<Longrightarrow>
    split_lines (h @ concat (map (\<lambda>l. NL # l) ls)) = h # ls"
proof (induction ls arbitrary: h)
  case Nil
  then show ?case by (simp add: split_lines_no_NL)
next
  case (Cons l ls)
  then have "split_lines (l @ concat (map (\<lambda>l. NL # l) ls)) = l # ls"
    by simp
  with Cons.prems show ?case
    by (simp add: split_lines_append del: split_lines.simps)
qed

lemma entryText_no_NL:
  "NL \<notin> set k \<Longrightarrow> NL \<notin> set (mvalue v) \<Longrightarrow> NL \<notin> set (entryText k v)"
  by (simp add: entryText_def)

lemma metadataLines_lines:
  assumes "fmdom (metadata e) \<noteq> {||}"
    and "\<forall>k \<in> fset (fmdom (metadata e)).
           NL \<notin> set k \<and> NL \<notin> set (mvalue (the (fmlookup (metadata e) k)))"
  shows "split_lines (metadataLines e) =
    [] # ''  metadata:''
       # map (\<lambda>k. entryText k (the (fmlookup (metadata e) k))) (sortedKeys (metadata e))"
proof -
  define ls where
    "ls = map (\<lambda>k. entryText k (the (fmlookup (metadata e) k))) (sortedKeys (metadata e))"
  define h where "h = ''  metadata:''"
  have "\<forall>l \<in> set ls. NL \<notin> set l"
    using assms(2) by (auto simp add: ls_def entryText_no_NL)
  moreover have "NL \<notin> set h"
    by (simp add: h_def)
  ultimately have inner: "split_lines (h @ concat (map (\<lambda>l. NL # l) ls)) = h # ls"
    by (rule split_lines_records [rotated])
  have whole: "metadataLines e = [] @ NL # (h @ concat (map (\<lambda>l. NL # l) ls))"
    using metadataLines_text [OF assms(1)] by (simp add: ls_def h_def comp_def)
  have "split_lines ([] @ NL # (h @ concat (map (\<lambda>l. NL # l) ls)))
      = [] # split_lines (h @ concat (map (\<lambda>l. NL # l) ls))"
    by (rule split_lines_append) simp
  with inner whole have "split_lines (metadataLines e) = [] # h # ls"
    by (simp only:)
  then show ?thesis
    by (simp only: ls_def h_def)
qed

lemma set_metadata_twice [simp]: "set_metadata m (set_metadata n e) = set_metadata m e"
  by (simp add: setters)

lemma set_metadata_same [simp]: "set_metadata (metadata e) e = e"
  by (cases e) (simp add: setters)

lemma metadata_set_metadata [simp]: "metadata (set_metadata m e) = m"
  by (simp add: setters)

lemma fmupd_then_add:
  "fmupd k x m ++\<^sub>f fmap_of_list l = m ++\<^sub>f fmap_of_list (l @ [(k, x)])"
  by (rule fmap_ext) (auto simp add: fmlookup_of_list map_add_def split: option.split)

lemma apply_metadataOptions:
  "apply_options (metadataOptions kvs) e =
    set_metadata (metadata e ++\<^sub>f fmap_of_list (rev (map metadataEntryOf kvs))) e"
proof (induction kvs arbitrary: e)
  case Nil
  show ?case
    by (simp add: metadataOptions_def fmempty_of_list [symmetric])
next
  case (Cons x kvs)
  obtain vis key val where x: "x = (vis, key, val)"
    by (cases x)
  have "apply_options (metadataOptions (x # kvs)) e
      = apply_options (metadataOptions kvs) (addMetadataValue vis key val e)"
    by (simp add: metadataOptions_def x)
  also have "\<dots> = set_metadata
      (fmupd key \<lparr>mvalue = val, mvisibility = vis\<rparr> (metadata e)
        ++\<^sub>f fmap_of_list (rev (map metadataEntryOf kvs))) e"
    by (simp add: Cons.IH addMetadataValue_eq)
  also have "\<dots> = set_metadata
      (metadata e ++\<^sub>f fmap_of_list (rev (map metadataEntryOf (x # kvs)))) e"
  proof -
    have "rev (map metadataEntryOf (x # kvs))
        = rev (map metadataEntryOf kvs) @ [(key, \<lparr>mvalue = val, mvisibility = vis\<rparr>)]"
      by (simp add: metadataEntryOf_def x)
    then show ?thesis
      by (simp only: fmupd_then_add)
  qed
  finally show ?case .
qed

lemma metadataOptions_permute:
  assumes "distinct (map (fst \<circ> snd) kvs)" "distinct (map (fst \<circ> snd) kvs')" "set kvs = set kvs'"
  shows "apply_options (metadataOptions kvs) e = apply_options (metadataOptions kvs') e"
proof -
  have fst_entry: "map fst (map metadataEntryOf l) = map (fst \<circ> snd) l" for l
    by (induction l) (auto simp add: metadataEntryOf_def)
  have "map_of (rev (map metadataEntryOf kvs)) = map_of (rev (map metadataEntryOf kvs'))"
  proof (rule map_of_inject_set [THEN iffD2])
    show "distinct (map fst (rev (map metadataEntryOf kvs)))"
      using assms(1) by (simp add: rev_map [symmetric] fst_entry del: map_map)
    show "distinct (map fst (rev (map metadataEntryOf kvs')))"
      using assms(2) by (simp add: rev_map [symmetric] fst_entry del: map_map)
    show "set (rev (map metadataEntryOf kvs)) = set (rev (map metadataEntryOf kvs'))"
      using assms(3) by simp
  qed
  then have "fmap_of_list (rev (map metadataEntryOf kvs))
      = fmap_of_list (rev (map metadataEntryOf kvs'))"
    by (intro fmap_ext) (simp add: fmlookup_of_list)
  then show ?thesis
    by (simp add: apply_metadataOptions)
qed

text \<open>
  C4, as the source has it. For an error with metadata the metadata section of \<^verbatim>\<open>Error()\<close> is
  the header \<^verbatim>\<open>  metadata:\<close> followed by one entry per key, each after a line feed and of the
  form \<^verbatim>\<open>    - <key>: <value> visibility=<VISIBILITY_NAME>\<close>, the keys strictly ascending
  and each key of the map present once; the section comes after the retry line and before the
  help links. Each entry is one line when no key and no value contains a line feed. The order
  in which entries with different keys were inserted does not matter: two insertion orders give
  the same error, hence the same text.
\<close>

theorem metadata_rendering_sorted:
  "(fmdom (metadata e) \<noteq> {||} \<longrightarrow>
      metadataLines e =
        NL # ''  metadata:''
        @ concat (map (\<lambda>k. NL # entryText k (the (fmlookup (metadata e) k)))
                      (sortedKeys (metadata e)))
      \<and> ((\<forall>k \<in> fset (fmdom (metadata e)).
             NL \<notin> set k \<and> NL \<notin> set (mvalue (the (fmlookup (metadata e) k)))) \<longrightarrow>
           split_lines (metadataLines e) =
             [] # ''  metadata:''
                # map (\<lambda>k. entryText k (the (fmlookup (metadata e) k)))
                      (sortedKeys (metadata e))))
   \<and> sorted_wrt (<) (sortedKeys (metadata e))
   \<and> set (sortedKeys (metadata e)) = fset (fmdom (metadata e))
   \<and> Error e =
       TrimSpace (Message e) @ fixedLines e @ optionalLines e @ retryLine e @ metadataLines e
       @ helpLines e
       @ (case wrappedErr e of
            None \<Rightarrow> []
          | Some w \<Rightarrow> NL # NL # ''wrapped error: '' @ Error_of w)
       @ debugLines e
   \<and> (distinct (map (fst \<circ> snd) kvs) \<and> distinct (map (fst \<circ> snd) kvs') \<and> set kvs = set kvs' \<longrightarrow>
        NewError d r (before @ metadataOptions kvs @ after)
          = NewError d r (before @ metadataOptions kvs' @ after))"
proof -
  have perm: "distinct (map (fst \<circ> snd) kvs) \<and> distinct (map (fst \<circ> snd) kvs') \<and> set kvs = set kvs' \<longrightarrow>
        NewError d r (before @ metadataOptions kvs @ after)
          = NewError d r (before @ metadataOptions kvs' @ after)"
    by (simp add: NewError_append apply_options_append
        metadataOptions_permute [of kvs kvs' "NewError d r before"])
  from perm metadataLines_text [of e] metadataLines_lines [of e] sortedKeys_sorted [of "metadata e"]
    sortedKeys_set [of "metadata e"] Error.simps(1) [of e]
  show ?thesis
    by blast
qed

theorem metadata_rendering_sorted_witness:
  "fmdom (metadata (NewError ''shopify.core'' ''METADATA_SORT_TEST''
      ([] @ metadataOptions
         [(VisibilityPublic, ''productType'', ''digital''),
          (VisibilityPublic, ''customerId'', ''1234567890''),
          (VisibilityPublic, ''orderId'', ''5432109876'')] @ []))) \<noteq> {||}
   \<and> split_lines (metadataLines (NewError ''shopify.core'' ''METADATA_SORT_TEST''
      ([] @ metadataOptions
         [(VisibilityPublic, ''productType'', ''digital''),
          (VisibilityPublic, ''customerId'', ''1234567890''),
          (VisibilityPublic, ''orderId'', ''5432109876'')] @ [])))
     = [[], ''  metadata:'',
        ''    - customerId: 1234567890 visibility=PUBLIC'',
        ''    - orderId: 5432109876 visibility=PUBLIC'',
        ''    - productType: digital visibility=PUBLIC'']
   \<and> NewError ''shopify.core'' ''METADATA_SORT_TEST''
      ([] @ metadataOptions
         [(VisibilityPublic, ''productType'', ''digital''),
          (VisibilityPublic, ''customerId'', ''1234567890''),
          (VisibilityPublic, ''orderId'', ''5432109876'')] @ [])
     = NewError ''shopify.core'' ''METADATA_SORT_TEST''
      ([] @ metadataOptions
         [(VisibilityPublic, ''orderId'', ''5432109876''),
          (VisibilityPublic, ''productType'', ''digital''),
          (VisibilityPublic, ''customerId'', ''1234567890'')] @ [])"
proof -
  let ?kvs = "[(VisibilityPublic, ''productType'', ''digital''),
          (VisibilityPublic, ''customerId'', ''1234567890''),
          (VisibilityPublic, ''orderId'', ''5432109876'')]"
  let ?kvs' = "[(VisibilityPublic, ''orderId'', ''5432109876''),
          (VisibilityPublic, ''productType'', ''digital''),
          (VisibilityPublic, ''customerId'', ''1234567890'')]"
  let ?e = "NewError ''shopify.core'' ''METADATA_SORT_TEST'' ([] @ metadataOptions ?kvs @ [])"
  have ne: "fmdom (metadata ?e) \<noteq> {||}"
    by code_simp
  have free: "\<forall>k \<in> fset (fmdom (metadata ?e)).
      NL \<notin> set k \<and> NL \<notin> set (mvalue (the (fmlookup (metadata ?e) k)))"
    by code_simp
  have rhs: "map (\<lambda>k. entryText k (the (fmlookup (metadata ?e) k))) (sortedKeys (metadata ?e))
     = [''    - customerId: 1234567890 visibility=PUBLIC'',
        ''    - orderId: 5432109876 visibility=PUBLIC'',
        ''    - productType: digital visibility=PUBLIC'']"
    by code_simp
  have hyp: "distinct (map (fst \<circ> snd) ?kvs) \<and> distinct (map (fst \<circ> snd) ?kvs')
      \<and> set ?kvs = set ?kvs'"
    by code_simp
  note inst = metadata_rendering_sorted
    [where e = ?e and kvs = ?kvs and kvs' = ?kvs' and d = "''shopify.core''"
       and r = "''METADATA_SORT_TEST''" and before = "[]" and after = "[]"]
  from inst ne free have "split_lines (metadataLines ?e) =
      [] # ''  metadata:''
         # map (\<lambda>k. entryText k (the (fmlookup (metadata ?e) k))) (sortedKeys (metadata ?e))"
    by blast
  then have lines: "split_lines (metadataLines ?e) =
      [[], ''  metadata:'',
        ''    - customerId: 1234567890 visibility=PUBLIC'',
        ''    - orderId: 5432109876 visibility=PUBLIC'',
        ''    - productType: digital visibility=PUBLIC'']"
    by (simp only: rhs)
  from inst hyp have "?e = NewError ''shopify.core'' ''METADATA_SORT_TEST''
      ([] @ metadataOptions ?kvs' @ [])"
    by blast
  with ne lines show ?thesis
    by blast
qed

text \<open>
  C4, as the spec states it, fails for a value of two lines: the map has one entry and the
  header is followed by two lines, none of the stated form.
\<close>

theorem metadata_rendering_sorted_counterexample:
  "fmdom (metadata (NewError ''d'' ''r''
      [WithMetadataValue VisibilityPublic ''note'' (''x'' @ [NL] @ ''y'')])) = {|''note''|}
   \<and> split_lines (Error (NewError ''d'' ''r''
      [WithMetadataValue VisibilityPublic ''note'' (''x'' @ [NL] @ ''y'')]))
     = [''unknown error'', ''  visibility: INTERNAL'', ''  domain: d'', ''  reason: r'',
        ''  code: UNKNOWN'', ''  metadata:'', ''    - note: x'', ''y visibility=PUBLIC'']"
  by code_simp

section \<open>Chain extraction finds the first matching layer\<close>

lemma As_walk_find:
  "As_walk x tg =
    (case find (layer_matches tg) (layers x) of
       None \<Rightarrow> (None, False)
     | Some l \<Rightarrow> (trogon_of l, True))"
  by (induction x tg rule: As_walk.induct)
    (auto simp add: layer_matches_def split: option.splits)

lemma As_walk_wrapped: "As_walk (wrapped n x) tg = As_walk x tg"
  by (induction n) simp_all

text \<open>
  C8. \<^verbatim>\<open>As(err, target)\<close> returns the first layer of the chain of \<^verbatim>\<open>err\<close> that is an error of
  the package with the domain and the reason of the target, with the flag true; when no layer
  matches, also when a layer of the package is there with another domain or reason, it returns
  no value with the flag false. It is a total function: it returns for every chain. Under any
  number of wrapping layers a matching error is found, and an error that does not match, and
  wraps nothing, is not.
\<close>

theorem As_extraction:
  "As err tg =
    (case err of
       None \<Rightarrow> (None, False)
     | Some x \<Rightarrow>
         (case find (layer_matches tg) (layers x) of
            None \<Rightarrow> (None, False)
          | Some l \<Rightarrow> (trogon_of l, True)))
   \<and> (target_is tg t \<longrightarrow> As (Some (wrapped n (PtrTrogon t))) tg = (Some t, True))
   \<and> (\<not> target_is tg t \<and> wrappedErr t = None \<longrightarrow>
        As (Some (wrapped n (PtrTrogon t))) tg = (None, False))
   \<and> target_is (TargetTemplate et) t = (tdomain et = domain t \<and> treason et = reason t)
   \<and> target_is (TargetError x) t = (domain x = domain t \<and> reason x = reason t)"
  by (simp add: As_def As_walk_find [symmetric] As_walk_wrapped target_is_def Template_Is_def
      Is.simps(1) split: option.split)

theorem As_extraction_witness:
  "target_is (TargetTemplate (NewErrorTemplate ''shopify.inventory'' ''INSUFFICIENT_INVENTORY'' []))
     (Template_NewError (NewErrorTemplate ''shopify.inventory'' ''INSUFFICIENT_INVENTORY'' [])
       [WithMetadataValue VisibilityPublic ''productId'' ''1234567890''])
   \<and> As (Some (wrapped 1 (PtrTrogon
        (Template_NewError (NewErrorTemplate ''shopify.inventory'' ''INSUFFICIENT_INVENTORY'' [])
          [WithMetadataValue VisibilityPublic ''productId'' ''1234567890'']))))
        (TargetTemplate (NewErrorTemplate ''shopify.inventory'' ''INSUFFICIENT_INVENTORY'' []))
     = (Some (Template_NewError
          (NewErrorTemplate ''shopify.inventory'' ''INSUFFICIENT_INVENTORY'' [])
          [WithMetadataValue VisibilityPublic ''productId'' ''1234567890'']), True)
   \<and> As (Some (wrapped 1 (PtrTrogon
        (Template_NewError (NewErrorTemplate ''shopify.inventory'' ''INSUFFICIENT_INVENTORY'' [])
          [WithMetadataValue VisibilityPublic ''productId'' ''1234567890'']))))
        (TargetTemplate (NewErrorTemplate ''shopify.users'' ''NOT_FOUND'' []))
     = (None, False)"
proof -
  let ?T = "NewErrorTemplate ''shopify.inventory'' ''INSUFFICIENT_INVENTORY'' []"
  let ?U = "NewErrorTemplate ''shopify.users'' ''NOT_FOUND'' []"
  let ?e = "Template_NewError ?T [WithMetadataValue VisibilityPublic ''productId'' ''1234567890'']"
  have match: "target_is (TargetTemplate ?T) ?e"
    by (simp add: target_is_def Template_Is_def Template_NewError_def NewErrorTemplate_def)
  have other: "\<not> target_is (TargetTemplate ?U) ?e \<and> wrappedErr ?e = None"
    by (simp add: target_is_def Template_Is_def Template_NewError_def NewErrorTemplate_def
        NewError_def baseOptions_def addMetadataValue_def setters)
  from As_extraction [where tg = "TargetTemplate ?T" and t = ?e and n = 1] match
  have found: "As (Some (wrapped 1 (PtrTrogon ?e))) (TargetTemplate ?T) = (Some ?e, True)"
    by blast
  from As_extraction [where tg = "TargetTemplate ?U" and t = ?e and n = 1] other
  have "As (Some (wrapped 1 (PtrTrogon ?e))) (TargetTemplate ?U) = (None, False)"
    by blast
  with match found show ?thesis
    by blast
qed

section \<open>WithChanges leaves the receiver alone\<close>

subsection \<open>Reading and writing the store\<close>

lemma deref_update: "deref (xs[a := x]) b = (if a = b \<and> b < length xs then Some x else deref xs b)"
  by (simp add: deref_def)

lemma deref_append: "deref (xs @ [x]) b = (if b = length xs then Some x else deref xs b)"
  by (auto simp add: deref_def nth_append)

lemma deref_Some_less: "deref xs a = Some x \<Longrightarrow> a < length xs"
  by (simp add: deref_def split: if_splits)

lemma deref_less: "a < length xs \<Longrightarrow> deref xs a = Some (xs ! a)"
  by (simp add: deref_def)

lemma kept_refl [simp]: "kept h h"
  by (simp add: kept_def)

lemma take_keep_append: "take n xs = ys \<Longrightarrow> length ys = n \<Longrightarrow> take n (xs @ zs) = ys"
  by (metis append_eq_conv_conj append_take_drop_id append.assoc)

lemma take_keep_update: "take n xs = ys \<Longrightarrow> n \<le> a \<Longrightarrow> take n (xs[a := x]) = ys"
  by simp

lemma kept_length:
  assumes "kept h0 h"
  shows "length (errObjs h0) \<le> length (errObjs h)" "length (mapObjs h0) \<le> length (mapObjs h)"
    "length (helpObjs h0) \<le> length (helpObjs h)" "length (linkArrs h0) \<le> length (linkArrs h)"
    "length (debugObjs h0) \<le> length (debugObjs h)" "length (frameArrs h0) \<le> length (frameArrs h)"
    "length (causeArrs h0) \<le> length (causeArrs h)"
proof -
  have len: "take n xs = ys \<Longrightarrow> n = length ys \<Longrightarrow> length ys \<le> length xs" for n and xs ys :: "'a list"
    by (metis length_take min.cobounded1)
  from assms show "length (errObjs h0) \<le> length (errObjs h)" "length (mapObjs h0) \<le> length (mapObjs h)"
    "length (helpObjs h0) \<le> length (helpObjs h)" "length (linkArrs h0) \<le> length (linkArrs h)"
    "length (debugObjs h0) \<le> length (debugObjs h)" "length (frameArrs h0) \<le> length (frameArrs h)"
    "length (causeArrs h0) \<le> length (causeArrs h)"
    unfolding kept_def by (blast intro: len)+
qed

lemma fresh_ref_simps [simp]:
  "fresh_ref n k None" "fresh_ref n k (Some a) = (n \<le> a \<and> a < k)"
  by (simp_all add: fresh_ref_def)

lemma fresh_ref_mono: "fresh_ref n k r \<Longrightarrow> k \<le> k' \<Longrightarrow> fresh_ref n k' r"
  by (cases r) auto

lemma fresh_slice_None [simp]: "fresh_slice n arrs None"
  by (simp add: fresh_slice_def)

lemma fresh_slice_append: "fresh_slice n arrs s \<Longrightarrow> fresh_slice n (arrs @ zs) s"
  by (cases s) (auto simp add: fresh_slice_def deref_def nth_append split: if_splits)

lemma fresh_slice_new:
  "n \<le> length arrs \<Longrightarrow> k \<le> length arr \<Longrightarrow>
    fresh_slice n (arrs @ [arr]) (Some \<lparr>base = length arrs, len = k\<rparr>)"
  by (simp add: fresh_slice_def deref_append)

lemma fresh_slice_write:
  "fresh_slice n arrs s \<Longrightarrow> deref arrs b = Some old \<Longrightarrow> length old \<le> length new \<Longrightarrow>
    fresh_slice n (arrs[b := new]) s"
  by (cases s) (auto simp add: fresh_slice_def deref_def nth_list_update split: if_splits)

lemma fresh_help_None [simp]: "fresh_help n hs nl arrs None"
  by (simp add: fresh_help_def)

lemma fresh_help_Some:
  "fresh_help n hs nl arrs (Some p) =
    (n \<le> p \<and> (\<exists>ls. deref hs p = Some ls \<and> fresh_slice nl arrs ls))"
  by (auto simp add: fresh_help_def split: option.splits)

lemma fresh_debug_None [simp]: "fresh_debug n ds nf arrs None"
  by (simp add: fresh_debug_def)

lemma fresh_debug_Some:
  "fresh_debug n ds nf arrs (Some p) =
    (n \<le> p \<and> (\<exists>fs d. deref ds p = Some (fs, d) \<and> fresh_slice nf arrs fs))"
  by (auto simp add: fresh_debug_def split: option.splits)

lemma fresh_help_append: "fresh_help n hs nl arrs r \<Longrightarrow> fresh_help n (hs @ zs) nl arrs r"
  by (cases r) (auto simp add: fresh_help_Some deref_def nth_append split: if_splits)

lemma fresh_help_arrs_append:
  "fresh_help n hs nl arrs r \<Longrightarrow> fresh_help n hs nl (arrs @ zs) r"
  by (cases r) (auto simp add: fresh_help_Some intro: fresh_slice_append)

lemma fresh_debug_append: "fresh_debug n ds nf arrs r \<Longrightarrow> fresh_debug n (ds @ zs) nf arrs r"
  by (cases r) (auto simp add: fresh_debug_Some deref_def nth_append split: if_splits)

lemma fresh_debug_arrs_append:
  "fresh_debug n ds nf arrs r \<Longrightarrow> fresh_debug n ds nf (arrs @ zs) r"
  by (cases r) (auto simp add: fresh_debug_Some intro: fresh_slice_append)

lemma owned_iff:
  "owned h0 c h \<longleftrightarrow>
    length (errObjs h0) \<le> c \<and>
    (\<exists>s. deref (errObjs h) c = Some s
       \<and> fresh_ref (length (mapObjs h0)) (length (mapObjs h)) (s_metadata s)
       \<and> fresh_slice (length (causeArrs h0)) (causeArrs h) (s_causes s)
       \<and> fresh_help (length (helpObjs h0)) (helpObjs h) (length (linkArrs h0)) (linkArrs h) (s_help s)
       \<and> fresh_debug (length (debugObjs h0)) (debugObjs h) (length (frameArrs h0)) (frameArrs h)
            (s_debugInfo s))"
  by (auto simp add: owned_def split: option.splits)

lemma upd_err_isolated:
  assumes "isolated h0 c h"
    and "\<And>s. s_metadata (f s) = s_metadata s" "\<And>s. s_causes (f s) = s_causes s"
    and "\<And>s. s_help (f s) = s_help s" "\<And>s. s_debugInfo (f s) = s_debugInfo s"
  shows "\<exists>h'. upd_err c f h = Some h' \<and> isolated h0 c h'"
proof -
  from assms(1) obtain s where s: "deref (errObjs h) c = Some s"
    by (auto simp add: isolated_def owned_iff)
  let ?h' = "h\<lparr>errObjs := (errObjs h)[c := f s]\<rparr>"
  have "upd_err c f h = Some ?h'"
    by (simp add: upd_err_def s)
  moreover have "kept h0 ?h'"
    using assms(1) by (simp add: isolated_def kept_def owned_iff)
  moreover have "owned h0 c ?h'"
    using assms(1) s deref_Some_less [OF s]
    by (simp add: isolated_def owned_iff deref_update assms(2-))
  ultimately show ?thesis
    by (simp add: isolated_def)
qed

lemma isolated_kept: "isolated h0 c h \<Longrightarrow> kept h0 h"
  by (simp add: isolated_def)

text \<open>Assigning a freshly made map.\<close>

lemma new_map_isolated:
  assumes "isolated h0 c h"
  shows "\<exists>h'. upd_err c (\<lambda>x. x\<lparr>s_metadata := Some (length (mapObjs h))\<rparr>)
              (h\<lparr>mapObjs := mapObjs h @ [md]\<rparr>) = Some h' \<and> isolated h0 c h'
            \<and> (\<exists>s. deref (errObjs h') c = Some s \<and> s_metadata s = Some (length (mapObjs h)))
            \<and> mapObjs h' = mapObjs h @ [md]"
proof -
  from assms obtain s where s: "deref (errObjs h) c = Some s"
    by (auto simp add: isolated_def owned_iff)
  let ?h' = "h\<lparr>mapObjs := mapObjs h @ [md], errObjs := (errObjs h)[c := s\<lparr>s_metadata := Some (length (mapObjs h))\<rparr>]\<rparr>"
  have "upd_err c (\<lambda>x. x\<lparr>s_metadata := Some (length (mapObjs h))\<rparr>) (h\<lparr>mapObjs := mapObjs h @ [md]\<rparr>)
      = Some ?h'"
    by (simp add: upd_err_def s)
  moreover have "kept h0 ?h'"
    using assms kept_length(2) [OF isolated_kept [OF assms]]
    by (simp add: isolated_def kept_def owned_iff)
  moreover have "owned h0 c ?h'"
    using assms s deref_Some_less [OF s] kept_length(2) [OF isolated_kept [OF assms]]
    by (simp add: isolated_def owned_iff deref_update)
  moreover have "deref (errObjs ?h') c = Some (s\<lparr>s_metadata := Some (length (mapObjs h))\<rparr>)"
    using deref_Some_less [OF s] by (simp add: deref_update)
  ultimately show ?thesis
    by (simp add: isolated_def)
qed

lemma addMetadataValue_h_isolated:
  assumes "isolated h0 c h"
  shows "\<exists>h'. addMetadataValue_h vis key val c h = Some h' \<and> isolated h0 c h'"
proof -
  from assms obtain s where s: "deref (errObjs h) c = Some s"
    and fm: "fresh_ref (length (mapObjs h0)) (length (mapObjs h)) (s_metadata s)"
    by (auto simp add: isolated_def owned_iff)
  from fm obtain n where n: "map_len h (s_metadata s) = Some n"
    by (cases "s_metadata s") (auto simp add: map_len_def deref_def)
  have step: "\<exists>h1 s1 m md. (if n = 0
            then upd_err c (\<lambda>x. x\<lparr>s_metadata := Some (length (mapObjs h))\<rparr>)
                   (h\<lparr>mapObjs := mapObjs h @ [fmempty]\<rparr>)
            else Some h) = Some h1 \<and> isolated h0 c h1 \<and> deref (errObjs h1) c = Some s1
          \<and> s_metadata s1 = Some m \<and> deref (mapObjs h1) m = Some md \<and> length (mapObjs h0) \<le> m"
  proof (cases "n = 0")
    case True
    from new_map_isolated [OF assms, of fmempty] obtain h1 s1 where
      "upd_err c (\<lambda>x. x\<lparr>s_metadata := Some (length (mapObjs h))\<rparr>) (h\<lparr>mapObjs := mapObjs h @ [fmempty]\<rparr>)
        = Some h1" "isolated h0 c h1" "deref (errObjs h1) c = Some s1"
      "s_metadata s1 = Some (length (mapObjs h))" "mapObjs h1 = mapObjs h @ [fmempty]"
      by blast
    with True kept_length(2) [OF isolated_kept [OF assms]] show ?thesis
      by (auto simp add: deref_append)
  next
    case False
    with n obtain m where m: "s_metadata s = Some m"
      by (cases "s_metadata s") (auto simp add: map_len_def)
    with fm have "length (mapObjs h0) \<le> m" "m < length (mapObjs h)"
      by simp_all
    with False assms s m show ?thesis
      by (auto simp add: deref_less)
  qed
  then obtain h1 s1 m md where h1: "(if n = 0
            then upd_err c (\<lambda>x. x\<lparr>s_metadata := Some (length (mapObjs h))\<rparr>)
                   (h\<lparr>mapObjs := mapObjs h @ [fmempty]\<rparr>)
            else Some h) = Some h1"
    and i1: "isolated h0 c h1" and s1: "deref (errObjs h1) c = Some s1"
    and m: "s_metadata s1 = Some m" and md: "deref (mapObjs h1) m = Some md"
    and fr: "length (mapObjs h0) \<le> m"
    by blast
  let ?h' = "h1\<lparr>mapObjs := (mapObjs h1)[m := fmupd key \<lparr>mvalue = val, mvisibility = vis\<rparr> md]\<rparr>"
  have run: "addMetadataValue_h vis key val c h = Some ?h'"
    by (simp add: addMetadataValue_h_def s n h1 s1 m md)
  have "kept h0 ?h'"
    using i1 fr by (simp add: isolated_def kept_def)
  moreover have "owned h0 c ?h'"
    using i1 by (simp add: isolated_def owned_iff)
  ultimately show ?thesis
    using run by (simp add: isolated_def)
qed

lemma append_link_fresh:
  assumes "fresh_slice nl (linkArrs h) ls" "nl \<le> length (linkArrs h)"
  shows "\<exists>sl arrs'. append_link ls x h = Some (sl, h\<lparr>linkArrs := arrs'\<rparr>)
           \<and> take nl arrs' = take nl (linkArrs h)
           \<and> fresh_slice nl arrs' (Some sl)"
proof (cases ls)
  case None
  have "fresh_slice nl (linkArrs h @ [[x]]) (Some \<lparr>base = length (linkArrs h), len = 1\<rparr>)"
    using assms(2) by (intro fresh_slice_new) simp_all
  with None assms(2) show ?thesis
    by (intro exI [of _ "\<lparr>base = length (linkArrs h), len = 1\<rparr>"]
        exI [of _ "linkArrs h @ [[x]]"]) (simp add: append_link_def)
next
  case (Some sl)
  with assms(1) obtain arr where arr: "deref (linkArrs h) (base sl) = Some arr"
    and le: "len sl \<le> length arr" and fr: "nl \<le> base sl"
    by (auto simp add: fresh_slice_def split: option.splits)
  show ?thesis
  proof (cases "len sl < length arr")
    case True
    have "fresh_slice nl ((linkArrs h)[base sl := arr[len sl := x]]) (Some (sl\<lparr>len := len sl + 1\<rparr>))"
      using True fr deref_Some_less [OF arr] by (simp add: fresh_slice_def deref_update)
    with Some arr True fr show ?thesis
      by (intro exI [of _ "sl\<lparr>len := len sl + 1\<rparr>"]
          exI [of _ "(linkArrs h)[base sl := arr[len sl := x]]"]) (simp add: append_link_def)
  next
    case False
    with le have eq: "len sl = length arr"
      by simp
    have "fresh_slice nl
        (linkArrs h @ [arr @ x # replicate (len sl - 1) \<lparr>description = [], url = []\<rparr>])
        (Some \<lparr>base = length (linkArrs h), len = len sl + 1\<rparr>)"
      using assms(2) eq by (intro fresh_slice_new) simp_all
    with Some arr eq assms(2) show ?thesis
      by (intro exI [of _ "\<lparr>base = length (linkArrs h), len = len sl + 1\<rparr>"]
          exI [of _ "linkArrs h @
            [arr @ x # replicate (len sl - 1) \<lparr>description = [], url = []\<rparr>]"])
        (simp add: append_link_def)
  qed
qed

lemma new_help_isolated:
  assumes "isolated h0 c h" "deref (errObjs h) c = Some s" "s_help s = None"
  shows "\<exists>h'. upd_err c (\<lambda>x. x\<lparr>s_help := Some (length (helpObjs h))\<rparr>)
              (h\<lparr>helpObjs := helpObjs h @ [None]\<rparr>) = Some h' \<and> isolated h0 c h'
            \<and> (\<exists>s'. deref (errObjs h') c = Some s' \<and> s_help s' \<noteq> None)"
proof -
  let ?h' = "h\<lparr>helpObjs := helpObjs h @ [None],
                errObjs := (errObjs h)[c := s\<lparr>s_help := Some (length (helpObjs h))\<rparr>]\<rparr>"
  have "upd_err c (\<lambda>x. x\<lparr>s_help := Some (length (helpObjs h))\<rparr>) (h\<lparr>helpObjs := helpObjs h @ [None]\<rparr>)
      = Some ?h'"
    by (simp add: upd_err_def assms(2))
  moreover have "kept h0 ?h'"
    using assms(1) kept_length(3) [OF isolated_kept [OF assms(1)]]
    by (simp add: isolated_def kept_def owned_iff)
  moreover have "owned h0 c ?h'"
    using assms deref_Some_less [OF assms(2)] kept_length(3) [OF isolated_kept [OF assms(1)]]
    by (simp add: isolated_def owned_iff deref_update fresh_help_Some deref_append)
  moreover have "deref (errObjs ?h') c = Some (s\<lparr>s_help := Some (length (helpObjs h))\<rparr>)"
    using deref_Some_less [OF assms(2)] by (simp add: deref_update)
  ultimately show ?thesis
    by (simp add: isolated_def)
qed

lemma addHelpLink_h_isolated:
  assumes "isolated h0 c h"
  shows "\<exists>h'. addHelpLink_h d u c h = Some h' \<and> isolated h0 c h'"
proof -
  from assms obtain s where s: "deref (errObjs h) c = Some s"
    by (auto simp add: isolated_def owned_iff)
  have "\<exists>h1 s1 p. (case s_help s of
             None \<Rightarrow>
               upd_err c (\<lambda>x. x\<lparr>s_help := Some (length (helpObjs h))\<rparr>)
                 (h\<lparr>helpObjs := helpObjs h @ [None]\<rparr>)
           | Some p \<Rightarrow> Some h) = Some h1 \<and> isolated h0 c h1 \<and> deref (errObjs h1) c = Some s1
           \<and> s_help s1 = Some p"
  proof (cases "s_help s")
    case None
    from new_help_isolated [OF assms s None] None show ?thesis
      by auto
  next
    case (Some p)
    with assms s show ?thesis
      by simp
  qed
  then obtain h1 s1 p where h1: "(case s_help s of
             None \<Rightarrow>
               upd_err c (\<lambda>x. x\<lparr>s_help := Some (length (helpObjs h))\<rparr>)
                 (h\<lparr>helpObjs := helpObjs h @ [None]\<rparr>)
           | Some p \<Rightarrow> Some h) = Some h1"
    and i1: "isolated h0 c h1" and s1: "deref (errObjs h1) c = Some s1" and p: "s_help s1 = Some p"
    by blast
  from i1 s1 p obtain ls where ls: "deref (helpObjs h1) p = Some ls"
    and fl: "fresh_slice (length (linkArrs h0)) (linkArrs h1) ls"
    and fp: "length (helpObjs h0) \<le> p"
    by (auto simp add: isolated_def owned_iff fresh_help_Some)
  from append_link_fresh [OF fl kept_length(4) [OF isolated_kept [OF i1]]]
  obtain sl arrs' where app: "append_link ls \<lparr>description = d, url = u\<rparr> h1
      = Some (sl, h1\<lparr>linkArrs := arrs'\<rparr>)"
    and tk: "take (length (linkArrs h0)) arrs' = take (length (linkArrs h0)) (linkArrs h1)"
    and fs: "fresh_slice (length (linkArrs h0)) arrs' (Some sl)"
    by blast
  let ?h' = "h1\<lparr>linkArrs := arrs', helpObjs := (helpObjs h1)[p := Some sl]\<rparr>"
  have run: "addHelpLink_h d u c h = Some ?h'"
    by (simp add: addHelpLink_h_def s h1 s1 p ls app)
  have "kept h0 ?h'"
    using i1 fp tk by (simp add: isolated_def kept_def)
  moreover have "owned h0 c ?h'"
    using i1 s1 p fp fs deref_Some_less [OF ls]
    by (auto simp add: isolated_def owned_iff fresh_help_Some deref_update)
  ultimately show ?thesis
    using run by (simp add: isolated_def)
qed

lemma apply_change_h_isolated:
  assumes "isolated h0 c h"
  shows "\<exists>h'. apply_change_h change c h = Some h' \<and> isolated h0 c h'"
proof (cases change)
  case (WithChangeMetadata m)
  with new_map_isolated [OF assms, of "fmempty ++\<^sub>f m"] show ?thesis
    by auto
qed (simp_all add: addMetadataValue_h_isolated [OF assms] addHelpLink_h_isolated [OF assms]
      upd_err_isolated [OF assms])

lemma apply_changes_h_isolated:
  "isolated h0 c h \<Longrightarrow> \<exists>h'. apply_changes_h changes c h = Some h' \<and> isolated h0 c h'"
proof (induction changes arbitrary: h)
  case Nil
  then show ?case by simp
next
  case (Cons change changes)
  from apply_change_h_isolated [OF Cons.prems, of change] obtain h1 where
    "apply_change_h change c h = Some h1" "isolated h0 c h1"
    by blast
  with Cons.IH [of h1] show ?case
    by simp
qed

lemma deref_kept: "take (length ys) xs = ys \<Longrightarrow> deref ys a = Some x \<Longrightarrow> deref xs a = Some x"
proof -
  assume tk: "take (length ys) xs = ys" and a: "deref ys a = Some x"
  from a have lt: "a < length ys" and x: "ys ! a = x"
    by (simp_all add: deref_def split: if_splits)
  from tk have "length ys \<le> length xs"
    by (metis length_take min.cobounded1)
  moreover from tk lt have "xs ! a = ys ! a"
    by (metis nth_take)
  ultimately show ?thesis
    using lt x by (simp add: deref_def)
qed

lemma wf_slice_kept:
  "take (length ys) xs = ys \<Longrightarrow> wf_slice ys s \<Longrightarrow> wf_slice xs s"
  by (cases s) (auto simp add: wf_slice_def deref_kept split: option.splits)

lemma elems_kept:
  "take (length ys) xs = ys \<Longrightarrow> wf_slice ys s \<Longrightarrow> elems xs s = elems ys s"
  by (cases s) (auto simp add: wf_slice_def elems_def deref_kept split: option.splits)

lemma wf_fields_kept:
  assumes "kept h0 h" "wf_fields h0 s"
  shows "wf_fields h s"
proof -
  from assms(1) have tk:
    "take (length (helpObjs h0)) (helpObjs h) = helpObjs h0"
    "take (length (linkArrs h0)) (linkArrs h) = linkArrs h0"
    "take (length (debugObjs h0)) (debugObjs h) = debugObjs h0"
    "take (length (frameArrs h0)) (frameArrs h) = frameArrs h0"
    "take (length (causeArrs h0)) (causeArrs h) = causeArrs h0"
    by (simp_all add: kept_def)
  from assms(2) kept_length(2) [OF assms(1)]
  have "case s_metadata s of None \<Rightarrow> True | Some m \<Rightarrow> m < length (mapObjs h)"
    by (auto simp add: wf_fields_def split: option.splits)
  moreover from assms(2) have "wf_slice (causeArrs h) (s_causes s)"
    by (auto simp add: wf_fields_def intro: wf_slice_kept [OF tk(5)])
  moreover from assms(2)
  have "case s_help s of
           None \<Rightarrow> True
         | Some p \<Rightarrow>
             (case deref (helpObjs h) p of None \<Rightarrow> False | Some ls \<Rightarrow> wf_slice (linkArrs h) ls)"
    by (auto simp add: wf_fields_def deref_kept [OF tk(1)] intro: wf_slice_kept [OF tk(2)]
        split: option.splits)
  moreover from assms(2)
  have "case s_debugInfo s of
           None \<Rightarrow> True
         | Some p \<Rightarrow>
             (case deref (debugObjs h) p of
                None \<Rightarrow> False
              | Some (fs, d) \<Rightarrow> wf_slice (frameArrs h) fs)"
    by (auto simp add: wf_fields_def deref_kept [OF tk(3)] intro: wf_slice_kept [OF tk(4)]
        split: option.splits)
  ultimately show ?thesis
    by (simp add: wf_fields_def)
qed

lemma view_kept:
  assumes "kept h0 h" "wf_err h0 e"
  shows "view h e = view h0 e"
proof -
  from assms(2) obtain s where s: "deref (errObjs h0) e = Some s" and wf: "wf_fields h0 s"
    by (auto simp add: wf_err_def split: option.splits)
  from assms(1) have tk:
    "take (length (errObjs h0)) (errObjs h) = errObjs h0"
    "take (length (mapObjs h0)) (mapObjs h) = mapObjs h0"
    "take (length (helpObjs h0)) (helpObjs h) = helpObjs h0"
    "take (length (linkArrs h0)) (linkArrs h) = linkArrs h0"
    "take (length (debugObjs h0)) (debugObjs h) = debugObjs h0"
    "take (length (frameArrs h0)) (frameArrs h) = frameArrs h0"
    "take (length (causeArrs h0)) (causeArrs h) = causeArrs h0"
    by (simp_all add: kept_def)
  have "deref (errObjs h) e = Some s"
    using deref_kept [OF tk(1) s] .
  moreover from wf have "metadata_of h s = metadata_of h0 s"
    by (auto simp add: metadata_of_def wf_fields_def deref_less deref_kept [OF tk(2)]
        split: option.splits)
  moreover from wf have "links_of h s = links_of h0 s"
    by (auto simp add: links_of_def wf_fields_def deref_kept [OF tk(3)] elems_kept [OF tk(4)]
        split: option.splits)
  moreover from wf have "debug_of h s = debug_of h0 s"
    by (auto simp add: debug_of_def wf_fields_def deref_kept [OF tk(5)] elems_kept [OF tk(6)]
        split: option.splits)
  moreover from wf have "causes_of h s = causes_of h0 s"
    by (simp add: causes_of_def wf_fields_def elems_kept [OF tk(7)])
  ultimately show ?thesis
    by (simp add: view_def s)
qed

lemma clone_metadata_isolated:
  assumes "isolated h0 c h" "case mref of None \<Rightarrow> True | Some m \<Rightarrow> m < length (mapObjs h)"
  shows "\<exists>h'. clone_metadata mref c h = Some h' \<and> isolated h0 c h'"
proof (cases mref)
  case None
  with assms(1) show ?thesis
    by (simp add: clone_metadata_def)
next
  case (Some m)
  with assms(2) have m: "deref (mapObjs h) m = Some (mapObjs h ! m)"
    by (simp add: deref_less)
  show ?thesis
  proof (cases "fmdom (mapObjs h ! m) = {||}")
    case True
    with Some m assms(1) show ?thesis
      by (simp add: clone_metadata_def)
  next
    case False
    with Some m new_map_isolated [OF assms(1), of "mapObjs h ! m"] show ?thesis
      by (auto simp add: clone_metadata_def)
  qed
qed

lemma clone_causes_isolated:
  assumes "isolated h0 c h" "wf_slice (causeArrs h) cs"
  shows "\<exists>h'. clone_causes cs c h = Some h' \<and> isolated h0 c h'"
proof (cases cs)
  case None
  with assms(1) show ?thesis
    by (simp add: clone_causes_def)
next
  case (Some sl)
  with assms(2) obtain arr where arr: "deref (causeArrs h) (base sl) = Some arr"
    and le: "len sl \<le> length arr"
    by (auto simp add: wf_slice_def split: option.splits)
  show ?thesis
  proof (cases "0 < len sl")
    case False
    with Some assms(1) show ?thesis
      by (simp add: clone_causes_def)
  next
    case True
    from assms(1) obtain s where s: "deref (errObjs h) c = Some s"
      by (auto simp add: isolated_def owned_iff)
    let ?sl = "\<lparr>base = length (causeArrs h), len = len sl\<rparr>"
    let ?h' = "h\<lparr>causeArrs := causeArrs h @ [take (len sl) arr],
                  errObjs := (errObjs h)[c := s\<lparr>s_causes := Some ?sl\<rparr>]\<rparr>"
    have run: "clone_causes cs c h = Some ?h'"
      using True le by (simp add: clone_causes_def Some arr upd_err_def s)
    have n: "length (causeArrs h0) \<le> length (causeArrs h)"
      by (rule kept_length(7) [OF isolated_kept [OF assms(1)]])
    have "kept h0 ?h'"
      using assms(1) n by (simp add: isolated_def kept_def owned_iff)
    moreover have "fresh_slice (length (causeArrs h0)) (causeArrs h @ [take (len sl) arr])
        (Some ?sl)"
      using n le by (intro fresh_slice_new) simp_all
    then have "owned h0 c ?h'"
      using assms(1) s deref_Some_less [OF s]
      by (simp add: isolated_def owned_iff deref_update)
    ultimately show ?thesis
      using run by (simp add: isolated_def)
  qed
qed

lemma Help_copy_h_fresh:
  assumes "wf_slice (linkArrs h) ls" "nl \<le> length (linkArrs h)"
  shows "\<exists>ls' arrs'. Help_copy_h ls h = Some (ls', h\<lparr>linkArrs := arrs'\<rparr>)
           \<and> take nl arrs' = take nl (linkArrs h)
           \<and> fresh_slice nl arrs' ls'
           \<and> (\<forall>s. fresh_slice nl (linkArrs h) s \<longrightarrow> fresh_slice nl arrs' s)"
proof (cases ls)
  case None
  show ?thesis
    by (intro exI [of _ None] exI [of _ "linkArrs h"]) (simp add: Help_copy_h_def None)
next
  case (Some sl)
  with assms(1) obtain arr where arr: "deref (linkArrs h) (base sl) = Some arr"
    and le: "len sl \<le> length arr"
    by (auto simp add: wf_slice_def split: option.splits)
  show ?thesis
  proof (cases "len sl = 0")
    case True
    show ?thesis
      by (intro exI [of _ None] exI [of _ "linkArrs h"]) (simp add: Help_copy_h_def Some True)
  next
    case False
    have "fresh_slice nl (linkArrs h @ [take (len sl) arr])
        (Some \<lparr>base = length (linkArrs h), len = len sl\<rparr>)"
      using assms(2) le by (intro fresh_slice_new) simp_all
    then show ?thesis
      using False le assms(2)
      by (intro exI [of _ "Some \<lparr>base = length (linkArrs h), len = len sl\<rparr>"]
          exI [of _ "linkArrs h @ [take (len sl) arr]"])
        (simp add: Help_copy_h_def Some arr fresh_slice_append)
  qed
qed

lemma DebugInfo_copy_h_fresh:
  assumes "wf_slice (frameArrs h) fs" "nf \<le> length (frameArrs h)"
  shows "\<exists>fs' arrs'. DebugInfo_copy_h fs h = Some (fs', h\<lparr>frameArrs := arrs'\<rparr>)
           \<and> take nf arrs' = take nf (frameArrs h)
           \<and> fresh_slice nf arrs' fs'
           \<and> (\<forall>s. fresh_slice nf (frameArrs h) s \<longrightarrow> fresh_slice nf arrs' s)"
proof (cases fs)
  case None
  show ?thesis
    by (intro exI [of _ None] exI [of _ "frameArrs h"]) (simp add: DebugInfo_copy_h_def None)
next
  case (Some sl)
  with assms(1) obtain arr where arr: "deref (frameArrs h) (base sl) = Some arr"
    and le: "len sl \<le> length arr"
    by (auto simp add: wf_slice_def split: option.splits)
  show ?thesis
  proof (cases "len sl = 0")
    case True
    show ?thesis
      by (intro exI [of _ None] exI [of _ "frameArrs h"])
        (simp add: DebugInfo_copy_h_def Some True)
  next
    case False
    have "fresh_slice nf (frameArrs h @ [take (len sl) arr])
        (Some \<lparr>base = length (frameArrs h), len = len sl\<rparr>)"
      using assms(2) le by (intro fresh_slice_new) simp_all
    then show ?thesis
      using False le assms(2)
      by (intro exI [of _ "Some \<lparr>base = length (frameArrs h), len = len sl\<rparr>"]
          exI [of _ "frameArrs h @ [take (len sl) arr]"])
        (simp add: DebugInfo_copy_h_def Some arr fresh_slice_append)
  qed
qed

lemma fresh_help_arrs:
  "fresh_help n hs nl arrs r \<Longrightarrow> \<forall>s. fresh_slice nl arrs s \<longrightarrow> fresh_slice nl arrs' s \<Longrightarrow>
    fresh_help n hs nl arrs' r"
  by (cases r) (auto simp add: fresh_help_Some)

lemma fresh_debug_arrs:
  "fresh_debug n ds nf arrs r \<Longrightarrow> \<forall>s. fresh_slice nf arrs s \<longrightarrow> fresh_slice nf arrs' s \<Longrightarrow>
    fresh_debug n ds nf arrs' r"
  by (cases r) (auto simp add: fresh_debug_Some)

lemma clone_help_isolated:
  assumes "isolated h0 c h"
    and "case href of
           None \<Rightarrow> True
         | Some p \<Rightarrow>
             (case deref (helpObjs h) p of None \<Rightarrow> False | Some ls \<Rightarrow> wf_slice (linkArrs h) ls)"
  shows "\<exists>h'. clone_help href c h = Some h' \<and> isolated h0 c h'"
proof (cases href)
  case None
  with assms(1) show ?thesis
    by (simp add: clone_help_def)
next
  case (Some p)
  with assms(2) obtain ls where ls: "deref (helpObjs h) p = Some ls"
    and wf: "wf_slice (linkArrs h) ls"
    by (auto split: option.splits)
  from assms(1) obtain s where s: "deref (errObjs h) c = Some s"
    by (auto simp add: isolated_def owned_iff)
  have nl: "length (linkArrs h0) \<le> length (linkArrs h)"
    and nh: "length (helpObjs h0) \<le> length (helpObjs h)"
    by (rule kept_length [OF isolated_kept [OF assms(1)]])+
  from Help_copy_h_fresh [OF wf nl] obtain ls' arrs' where
    cp: "Help_copy_h ls h = Some (ls', h\<lparr>linkArrs := arrs'\<rparr>)"
    and tk: "take (length (linkArrs h0)) arrs' = take (length (linkArrs h0)) (linkArrs h)"
    and fr: "fresh_slice (length (linkArrs h0)) arrs' ls'"
    and mono: "\<forall>s. fresh_slice (length (linkArrs h0)) (linkArrs h) s \<longrightarrow>
        fresh_slice (length (linkArrs h0)) arrs' s"
    by blast
  let ?h' = "h\<lparr>linkArrs := arrs', helpObjs := helpObjs h @ [ls'],
                errObjs := (errObjs h)[c := s\<lparr>s_help := Some (length (helpObjs h))\<rparr>]\<rparr>"
  have run: "clone_help href c h = Some ?h'"
    by (simp add: clone_help_def Some ls cp upd_err_def s)
  have "kept h0 ?h'"
    using assms(1) nh tk by (simp add: isolated_def kept_def owned_iff)
  moreover have "owned h0 c ?h'"
    using assms(1) s deref_Some_less [OF s] nh fr
    by (simp add: isolated_def owned_iff deref_update fresh_help_Some deref_append)
  ultimately show ?thesis
    using run by (simp add: isolated_def)
qed

lemma clone_debugInfo_isolated:
  assumes "isolated h0 c h"
    and "case dref of
           None \<Rightarrow> True
         | Some p \<Rightarrow>
             (case deref (debugObjs h) p of
                None \<Rightarrow> False
              | Some (fs, d) \<Rightarrow> wf_slice (frameArrs h) fs)"
  shows "\<exists>h'. clone_debugInfo dref c h = Some h' \<and> isolated h0 c h'"
proof (cases dref)
  case None
  with assms(1) show ?thesis
    by (simp add: clone_debugInfo_def)
next
  case (Some p)
  with assms(2) obtain fs d where fs: "deref (debugObjs h) p = Some (fs, d)"
    and wf: "wf_slice (frameArrs h) fs"
    by (auto split: option.splits)
  from assms(1) obtain s where s: "deref (errObjs h) c = Some s"
    by (auto simp add: isolated_def owned_iff)
  have nf: "length (frameArrs h0) \<le> length (frameArrs h)"
    and nd: "length (debugObjs h0) \<le> length (debugObjs h)"
    by (rule kept_length [OF isolated_kept [OF assms(1)]])+
  from DebugInfo_copy_h_fresh [OF wf nf] obtain fs' arrs' where
    cp: "DebugInfo_copy_h fs h = Some (fs', h\<lparr>frameArrs := arrs'\<rparr>)"
    and tk: "take (length (frameArrs h0)) arrs' = take (length (frameArrs h0)) (frameArrs h)"
    and fr: "fresh_slice (length (frameArrs h0)) arrs' fs'"
    and mono: "\<forall>s. fresh_slice (length (frameArrs h0)) (frameArrs h) s \<longrightarrow>
        fresh_slice (length (frameArrs h0)) arrs' s"
    by blast
  let ?h' = "h\<lparr>frameArrs := arrs', debugObjs := debugObjs h @ [(fs', d)],
                errObjs := (errObjs h)[c := s\<lparr>s_debugInfo := Some (length (debugObjs h))\<rparr>]\<rparr>"
  have run: "clone_debugInfo dref c h = Some ?h'"
    by (simp add: clone_debugInfo_def Some fs cp upd_err_def s)
  have "kept h0 ?h'"
    using assms(1) nd tk by (simp add: isolated_def kept_def owned_iff)
  moreover have "owned h0 c ?h'"
    using assms(1) s deref_Some_less [OF s] nd fr
    by (simp add: isolated_def owned_iff deref_update fresh_debug_Some deref_append)
  ultimately show ?thesis
    using run by (simp add: isolated_def)
qed

lemma copy_h_isolated:
  assumes "wf_err h e"
  shows "\<exists>h'. copy_h e h = Some (length (errObjs h), h') \<and> isolated h (length (errObjs h)) h'"
proof -
  from assms obtain s where s: "deref (errObjs h) e = Some s" and wf: "wf_fields h s"
    by (auto simp add: wf_err_def split: option.splits)
  let ?c = "length (errObjs h)"
  let ?h0 = "h\<lparr>errObjs := errObjs h @ [s\<lparr>s_metadata := None, s_causes := None, s_help := None,
                                      s_debugInfo := None\<rparr>]\<rparr>"
  have i0: "isolated h ?c ?h0"
    by (simp add: isolated_def kept_def owned_iff deref_append)
  have wf_at: "wf_fields g s" if "isolated h ?c g" for g
    using wf_fields_kept [OF isolated_kept [OF that] wf] .
  from clone_metadata_isolated [OF i0, of "s_metadata s"] wf_at [OF i0]
  obtain h1 where h1: "clone_metadata (s_metadata s) ?c ?h0 = Some h1" and i1: "isolated h ?c h1"
    by (auto simp add: wf_fields_def)
  from clone_causes_isolated [OF i1, of "s_causes s"] wf_at [OF i1]
  obtain h2 where h2: "clone_causes (s_causes s) ?c h1 = Some h2" and i2: "isolated h ?c h2"
    by (auto simp add: wf_fields_def)
  from clone_help_isolated [OF i2, of "s_help s"] wf_at [OF i2]
  obtain h3 where h3: "clone_help (s_help s) ?c h2 = Some h3" and i3: "isolated h ?c h3"
    by (auto simp add: wf_fields_def)
  from clone_debugInfo_isolated [OF i3, of "s_debugInfo s"] wf_at [OF i3]
  obtain h4 where h4: "clone_debugInfo (s_debugInfo s) ?c h3 = Some h4" and i4: "isolated h ?c h4"
    by (auto simp add: wf_fields_def)
  have "copy_h e h = Some (?c, h4)"
    by (simp add: copy_h_def s h1 h2 h3 h4)
  with i4 show ?thesis
    by blast
qed

subsection \<open>The content of the clone\<close>

lemma metadata_of_cong:
  "mapObjs h' = mapObjs h \<Longrightarrow> s_metadata s' = s_metadata s \<Longrightarrow>
    metadata_of h' s' = metadata_of h s"
  by (simp add: metadata_of_def cong: option.case_cong)

lemma links_of_cong:
  "helpObjs h' = helpObjs h \<Longrightarrow> linkArrs h' = linkArrs h \<Longrightarrow> s_help s' = s_help s \<Longrightarrow>
    links_of h' s' = links_of h s"
  by (simp add: links_of_def cong: option.case_cong)

lemma help_of_cong:
  "helpObjs h' = helpObjs h \<Longrightarrow> linkArrs h' = linkArrs h \<Longrightarrow> s_help s' = s_help s \<Longrightarrow>
    help_of h' s' = help_of h s"
  by (simp add: help_of_def links_of_def cong: option.case_cong)

lemma debugInfo_of_cong:
  "debugObjs h' = debugObjs h \<Longrightarrow> frameArrs h' = frameArrs h \<Longrightarrow>
    s_debugInfo s' = s_debugInfo s \<Longrightarrow> debugInfo_of h' s' = debugInfo_of h s"
  by (simp add: debugInfo_of_def debug_of_def cong: option.case_cong)

lemma causes_of_cong:
  "causeArrs h' = causeArrs h \<Longrightarrow> s_causes s' = s_causes s \<Longrightarrow>
    causes_of h' s' = causes_of h s"
  by (simp add: causes_of_def)

lemma elems_wf: "wf_slice arrs sl \<Longrightarrow> \<exists>xs. elems arrs sl = Some xs"
  by (cases sl) (auto simp add: wf_slice_def elems_def split: option.splits)

lemma wf_fields_parts:
  assumes wf: "wf_fields h s"
  shows "\<exists>md hp di cs. metadata_of h s = Some md \<and> help_of h s = Some hp
    \<and> debugInfo_of h s = Some di \<and> causes_of h s = Some cs"
proof -
  have "\<exists>md. metadata_of h s = Some md"
  proof (cases "s_metadata s")
    case None
    then show ?thesis by (simp add: metadata_of_def)
  next
    case (Some m)
    with wf show ?thesis by (simp add: metadata_of_def wf_fields_def deref_def)
  qed
  moreover have "\<exists>cs. causes_of h s = Some cs"
    using wf by (simp add: causes_of_def wf_fields_def elems_wf)
  moreover have "\<exists>hp. help_of h s = Some hp"
  proof (cases "s_help s")
    case None
    then show ?thesis by (simp add: help_of_def)
  next
    case (Some p)
    with wf obtain ls where "deref (helpObjs h) p = Some ls" "wf_slice (linkArrs h) ls"
      by (auto simp add: wf_fields_def split: option.splits)
    with Some elems_wf [of "linkArrs h" ls] show ?thesis
      by (auto simp add: help_of_def links_of_def)
  qed
  moreover have "\<exists>di. debugInfo_of h s = Some di"
  proof (cases "s_debugInfo s")
    case None
    then show ?thesis by (simp add: debugInfo_of_def debug_of_def)
  next
    case (Some p)
    with wf obtain fs d where "deref (debugObjs h) p = Some (fs, d)" "wf_slice (frameArrs h) fs"
      by (auto simp add: wf_fields_def split: option.splits)
    with Some elems_wf [of "frameArrs h" fs] show ?thesis
      by (auto simp add: debugInfo_of_def debug_of_def)
  qed
  ultimately show ?thesis
    by blast
qed

lemma wf_err_parts:
  assumes "wf_err h c"
  obtains s md hp di cs where "deref (errObjs h) c = Some s" "wf_fields h s"
    "metadata_of h s = Some md" "help_of h s = Some hp" "debugInfo_of h s = Some di"
    "causes_of h s = Some cs" "value_of h c = Some (struct_value s md hp di, cs)"
proof -
  from assms obtain s where s: "deref (errObjs h) c = Some s" and wf: "wf_fields h s"
    by (auto simp add: wf_err_def split: option.splits)
  from wf_fields_parts [OF wf] obtain md hp di cs where
    parts: "metadata_of h s = Some md" "help_of h s = Some hp"
      "debugInfo_of h s = Some di" "causes_of h s = Some cs"
    by blast
  with s have "value_of h c = Some (struct_value s md hp di, cs)"
    by (simp add: value_of_def)
  with s wf parts that show ?thesis
    by blast
qed

lemma upd_err_value:
  assumes wf: "wf_err h c" and run: "upd_err c f h = Some h'"
    and keep: "\<And>s. s_metadata (f s) = s_metadata s" "\<And>s. s_causes (f s) = s_causes s"
      "\<And>s. s_help (f s) = s_help s" "\<And>s. s_debugInfo (f s) = s_debugInfo s"
    and val: "\<And>s md hp di. struct_value (f s) md hp di = g (struct_value s md hp di)"
  shows "value_of h' c = map_option (\<lambda>(v, cs). (g v, cs)) (value_of h c)"
proof -
  from wf obtain s md hp di cs where s: "deref (errObjs h) c = Some s"
    and parts: "metadata_of h s = Some md" "help_of h s = Some hp" "debugInfo_of h s = Some di"
      "causes_of h s = Some cs"
    and v: "value_of h c = Some (struct_value s md hp di, cs)"
    by (rule wf_err_parts)
  from run s have h': "h' = h\<lparr>errObjs := (errObjs h)[c := f s]\<rparr>"
    by (simp add: upd_err_def)
  have d: "deref (errObjs h') c = Some (f s)"
    using deref_Some_less [OF s] by (simp add: h' deref_update)
  have "metadata_of h' (f s) = metadata_of h s"
    by (rule metadata_of_cong) (simp_all add: h' keep)
  moreover have "help_of h' (f s) = help_of h s"
    by (rule help_of_cong) (simp_all add: h' keep)
  moreover have "debugInfo_of h' (f s) = debugInfo_of h s"
    by (rule debugInfo_of_cong) (simp_all add: h' keep)
  moreover have "causes_of h' (f s) = causes_of h s"
    by (rule causes_of_cong) (simp_all add: h' keep)
  ultimately have "metadata_of h' (f s) = Some md" "help_of h' (f s) = Some hp"
    "debugInfo_of h' (f s) = Some di" "causes_of h' (f s) = Some cs"
    using parts by simp_all
  with d have "value_of h' c = Some (struct_value (f s) md hp di, cs)"
    by (simp add: value_of_def)
  with v val show ?thesis
    by simp
qed

lemma struct_value_refs [simp]:
  "struct_value (s\<lparr>s_metadata := a\<rparr>) md hp di = struct_value s md hp di"
  "struct_value (s\<lparr>s_causes := b\<rparr>) md hp di = struct_value s md hp di"
  "struct_value (s\<lparr>s_help := p\<rparr>) md hp di = struct_value s md hp di"
  "struct_value (s\<lparr>s_debugInfo := q\<rparr>) md hp di = struct_value s md hp di"
  by (simp_all add: struct_value_def)

lemma new_map_value:
  assumes wf: "wf_err h c"
    and run: "upd_err c (\<lambda>x. x\<lparr>s_metadata := Some (length (mapObjs h))\<rparr>)
                (h\<lparr>mapObjs := mapObjs h @ [md']\<rparr>) = Some h'"
  shows "value_of h' c = map_option (\<lambda>(v, cs). (set_metadata md' v, cs)) (value_of h c)"
proof -
  from wf obtain s md hp di cs where s: "deref (errObjs h) c = Some s"
    and parts: "help_of h s = Some hp" "debugInfo_of h s = Some di" "causes_of h s = Some cs"
    and v: "value_of h c = Some (struct_value s md hp di, cs)"
    by (rule wf_err_parts)
  let ?s' = "s\<lparr>s_metadata := Some (length (mapObjs h))\<rparr>"
  from run s have h': "h' = h\<lparr>mapObjs := mapObjs h @ [md'], errObjs := (errObjs h)[c := ?s']\<rparr>"
    by (simp add: upd_err_def)
  have d: "deref (errObjs h') c = Some ?s'"
    using deref_Some_less [OF s] by (simp add: h' deref_update)
  have "metadata_of h' ?s' = Some md'"
    by (simp add: h' metadata_of_def deref_append)
  moreover have "help_of h' ?s' = help_of h s"
    by (rule help_of_cong) (simp_all add: h')
  moreover have "debugInfo_of h' ?s' = debugInfo_of h s"
    by (rule debugInfo_of_cong) (simp_all add: h')
  moreover have "causes_of h' ?s' = causes_of h s"
    by (rule causes_of_cong) (simp_all add: h')
  ultimately have "value_of h' c = Some (struct_value ?s' md' hp di, cs)"
    using d parts by (simp add: value_of_def)
  moreover have "struct_value ?s' md' hp di = set_metadata md' (struct_value s md hp di)"
    by (simp add: struct_value_def setters)
  ultimately show ?thesis
    using v by simp
qed

lemma map_update_value:
  assumes s: "deref (errObjs h) c = Some s" and m: "s_metadata s = Some m"
    and old: "deref (mapObjs h) m = Some old"
    and rest: "help_of h s = Some hp" "debugInfo_of h s = Some di" "causes_of h s = Some cs"
  shows "value_of (h\<lparr>mapObjs := (mapObjs h)[m := new]\<rparr>) c = Some (struct_value s new hp di, cs)"
proof -
  let ?h' = "h\<lparr>mapObjs := (mapObjs h)[m := new]\<rparr>"
  have "metadata_of ?h' s = Some new"
    using deref_Some_less [OF old] by (simp add: metadata_of_def m deref_update)
  moreover have "help_of ?h' s = help_of h s"
    by (rule help_of_cong) simp_all
  moreover have "debugInfo_of ?h' s = debugInfo_of h s"
    by (rule debugInfo_of_cong) simp_all
  moreover have "causes_of ?h' s = causes_of h s"
    by (rule causes_of_cong) simp_all
  ultimately show ?thesis
    using s rest by (simp add: value_of_def)
qed

lemma addMetadataValue_h_value:
  assumes wf: "wf_err h c" and run: "addMetadataValue_h vis key val c h = Some h'"
  shows "value_of h' c
    = map_option (\<lambda>(v, cs). (addMetadataValue vis key val v, cs)) (value_of h c)"
proof -
  let ?x = "\<lparr>mvalue = val, mvisibility = vis\<rparr>"
  from wf obtain s md hp di cs where s: "deref (errObjs h) c = Some s"
    and wfs: "wf_fields h s"
    and parts: "metadata_of h s = Some md" "help_of h s = Some hp" "debugInfo_of h s = Some di"
      "causes_of h s = Some cs"
    and v: "value_of h c = Some (struct_value s md hp di, cs)"
    by (rule wf_err_parts)
  have n: "map_len h (s_metadata s) = Some (fcard (fmdom md))"
    using parts(1) by (cases "s_metadata s") (auto simp add: map_len_def metadata_of_def)
  have goal: "value_of h' c = Some (struct_value s (fmupd key ?x md) hp di, cs)"
  proof (cases "fcard (fmdom md) = 0")
    case True
    then have md: "md = fmempty"
      by (simp add: fmdom_empty_iff)
    let ?s1 = "s\<lparr>s_metadata := Some (length (mapObjs h))\<rparr>"
    let ?h1 = "h\<lparr>mapObjs := mapObjs h @ [fmempty], errObjs := (errObjs h)[c := ?s1]\<rparr>"
    have d1: "deref (errObjs ?h1) c = Some ?s1"
      using deref_Some_less [OF s] by (simp add: deref_update)
    have "addMetadataValue_h vis key val c h
        = Some (?h1\<lparr>mapObjs := (mapObjs ?h1)[length (mapObjs h) := fmupd key ?x fmempty]\<rparr>)"
      using True d1 by (simp add: addMetadataValue_h_def s n upd_err_def deref_append)
    with run have h': "h' = ?h1\<lparr>mapObjs := (mapObjs ?h1)[length (mapObjs h) := fmupd key ?x fmempty]\<rparr>"
      by simp
    have "help_of ?h1 ?s1 = help_of h s"
      by (rule help_of_cong) simp_all
    moreover have "debugInfo_of ?h1 ?s1 = debugInfo_of h s"
      by (rule debugInfo_of_cong) simp_all
    moreover have "causes_of ?h1 ?s1 = causes_of h s"
      by (rule causes_of_cong) simp_all
    ultimately have "value_of h' c = Some (struct_value ?s1 (fmupd key ?x fmempty) hp di, cs)"
      unfolding h' using parts
      by (intro map_update_value [OF d1, of "length (mapObjs h)" fmempty]) (simp_all add: deref_append)
    with md show ?thesis
      by simp
  next
    case False
    then have "fmdom md \<noteq> {||}"
      by auto
    with parts(1) obtain m where m: "s_metadata s = Some m" and old: "deref (mapObjs h) m = Some md"
      by (cases "s_metadata s") (auto simp add: metadata_of_def)
    have "addMetadataValue_h vis key val c h
        = Some (h\<lparr>mapObjs := (mapObjs h)[m := fmupd key ?x md]\<rparr>)"
      using False n by (simp add: addMetadataValue_h_def s m old)
    with run have h': "h' = h\<lparr>mapObjs := (mapObjs h)[m := fmupd key ?x md]\<rparr>"
      by simp
    show ?thesis
      unfolding h' using parts by (intro map_update_value [OF s m old])
  qed
  have "struct_value s (fmupd key ?x md) hp di
      = addMetadataValue vis key val (struct_value s md hp di)"
    by (simp add: addMetadataValue_eq struct_value_def setters)
  with goal v show ?thesis
    by simp
qed

lemma append_link_elems:
  assumes "wf_slice (linkArrs h) ls"
  shows "\<exists>sl arrs' xs. append_link ls x h = Some (sl, h\<lparr>linkArrs := arrs'\<rparr>)
           \<and> elems (linkArrs h) ls = Some xs
           \<and> elems arrs' (Some sl) = Some (xs @ [x])
           \<and> wf_slice arrs' (Some sl)
           \<and> length (linkArrs h) \<le> length arrs'
           \<and> (\<forall>i < length (linkArrs h). length (linkArrs h ! i) \<le> length (arrs' ! i))"
proof (cases ls)
  case None
  show ?thesis
    by (intro exI [of _ "\<lparr>base = length (linkArrs h), len = 1\<rparr>"]
        exI [of _ "linkArrs h @ [[x]]"] exI [of _ "[]"])
      (simp add: append_link_def None elems_def wf_slice_def deref_append nth_append)
next
  case (Some sl)
  with assms obtain arr where arr: "deref (linkArrs h) (base sl) = Some arr"
    and le: "len sl \<le> length arr"
    by (auto simp add: wf_slice_def split: option.splits)
  from arr have b: "base sl < length (linkArrs h)" and nth: "linkArrs h ! base sl = arr"
    by (simp_all add: deref_def split: if_splits)
  show ?thesis
  proof (cases "len sl < length arr")
    case True
    then have "take (Suc (len sl)) (arr[len sl := x]) = take (len sl) arr @ [x]"
      by (simp add: take_Suc_conv_app_nth)
    moreover have "\<forall>i < length (linkArrs h).
        length (linkArrs h ! i) \<le> length ((linkArrs h)[base sl := arr[len sl := x]] ! i)"
    proof (intro allI impI)
      fix i
      assume "i < length (linkArrs h)"
      then show "length (linkArrs h ! i)
          \<le> length ((linkArrs h)[base sl := arr[len sl := x]] ! i)"
        using nth by (cases "i = base sl") simp_all
    qed
    ultimately show ?thesis
      using True arr b
      by (intro exI [of _ "sl\<lparr>len := len sl + 1\<rparr>"]
          exI [of _ "(linkArrs h)[base sl := arr[len sl := x]]"] exI [of _ "take (len sl) arr"])
        (simp add: append_link_def Some elems_def wf_slice_def deref_update)
  next
    case False
    with le have eq: "len sl = length arr"
      by simp
    show ?thesis
      using eq arr
      by (intro exI [of _ "\<lparr>base = length (linkArrs h), len = len sl + 1\<rparr>"]
          exI [of _ "linkArrs h @
            [arr @ x # replicate (len sl - 1) \<lparr>description = [], url = []\<rparr>]"]
          exI [of _ arr])
        (simp add: append_link_def Some elems_def wf_slice_def deref_append nth_append)
  qed
qed

lemma help_update_value:
  assumes s: "deref (errObjs h) c = Some s" and p: "s_help s = Some p"
    and old: "deref (helpObjs h) p = Some ls"
    and rest: "metadata_of h s = Some md" "debugInfo_of h s = Some di" "causes_of h s = Some cs"
    and new: "elems arrs' (Some sl) = Some ys"
  shows "value_of (h\<lparr>linkArrs := arrs', helpObjs := (helpObjs h)[p := Some sl]\<rparr>) c
    = Some (struct_value s md (Some \<lparr>links = ys\<rparr>) di, cs)"
proof -
  let ?h' = "h\<lparr>linkArrs := arrs', helpObjs := (helpObjs h)[p := Some sl]\<rparr>"
  have "help_of ?h' s = Some (Some \<lparr>links = ys\<rparr>)"
    using deref_Some_less [OF old] new by (simp add: help_of_def links_of_def p deref_update)
  moreover have "metadata_of ?h' s = metadata_of h s"
    by (rule metadata_of_cong) simp_all
  moreover have "debugInfo_of ?h' s = debugInfo_of h s"
    by (rule debugInfo_of_cong) simp_all
  moreover have "causes_of ?h' s = causes_of h s"
    by (rule causes_of_cong) simp_all
  ultimately show ?thesis
    using s rest by (simp add: value_of_def)
qed

lemma addHelpLink_h_value:
  assumes wf: "wf_err h c" and run: "addHelpLink_h d u c h = Some h'"
  shows "value_of h' c = map_option (\<lambda>(v, cs). (addHelpLink d u v, cs)) (value_of h c)"
proof -
  let ?x = "\<lparr>description = d, url = u\<rparr>"
  from wf obtain s md hp di cs where s: "deref (errObjs h) c = Some s"
    and wfs: "wf_fields h s"
    and parts: "metadata_of h s = Some md" "help_of h s = Some hp" "debugInfo_of h s = Some di"
      "causes_of h s = Some cs"
    and v: "value_of h c = Some (struct_value s md hp di, cs)"
    by (rule wf_err_parts)
  have goal: "value_of h' c
      = Some (struct_value s md (Some \<lparr>links = helpLinks hp @ [?x]\<rparr>) di, cs)"
  proof (cases "s_help s")
    case None
    with parts(2) have hp: "hp = None"
      by (simp add: help_of_def)
    let ?p = "length (helpObjs h)"
    let ?s1 = "s\<lparr>s_help := Some ?p\<rparr>"
    let ?h1 = "h\<lparr>helpObjs := helpObjs h @ [None], errObjs := (errObjs h)[c := ?s1]\<rparr>"
    have d1: "deref (errObjs ?h1) c = Some ?s1"
      using deref_Some_less [OF s] by (simp add: deref_update)
    from append_link_elems [of ?h1 None ?x] obtain sl arrs' where
      app: "append_link None ?x ?h1 = Some (sl, ?h1\<lparr>linkArrs := arrs'\<rparr>)"
      and el: "elems arrs' (Some sl) = Some ([] @ [?x])"
      by (auto simp add: wf_slice_def elems_def)
    have "addHelpLink_h d u c h
        = Some (?h1\<lparr>linkArrs := arrs', helpObjs := (helpObjs ?h1)[?p := Some sl]\<rparr>)"
      using d1 app by (simp add: addHelpLink_h_def s None upd_err_def deref_append)
    with run have h': "h' = ?h1\<lparr>linkArrs := arrs', helpObjs := (helpObjs ?h1)[?p := Some sl]\<rparr>"
      by simp
    have "metadata_of ?h1 ?s1 = metadata_of h s"
      by (rule metadata_of_cong) simp_all
    moreover have "debugInfo_of ?h1 ?s1 = debugInfo_of h s"
      by (rule debugInfo_of_cong) simp_all
    moreover have "causes_of ?h1 ?s1 = causes_of h s"
      by (rule causes_of_cong) simp_all
    ultimately have "value_of h' c = Some (struct_value ?s1 md (Some \<lparr>links = [] @ [?x]\<rparr>) di, cs)"
      unfolding h' using parts el
      by (intro help_update_value [OF d1, of ?p None]) (simp_all add: deref_append)
    with hp show ?thesis
      by (simp add: helpLinks_def)
  next
    case (Some p)
    with wfs obtain ls where ls: "deref (helpObjs h) p = Some ls"
      and wl: "wf_slice (linkArrs h) ls"
      by (auto simp add: wf_fields_def split: option.splits)
    from append_link_elems [OF wl, of ?x] obtain sl arrs' xs where
      app: "append_link ls ?x h = Some (sl, h\<lparr>linkArrs := arrs'\<rparr>)"
      and xs: "elems (linkArrs h) ls = Some xs"
      and el: "elems arrs' (Some sl) = Some (xs @ [?x])"
      by blast
    from parts(2) Some ls xs have hp: "hp = Some \<lparr>links = xs\<rparr>"
      by (auto simp add: help_of_def links_of_def)
    have "addHelpLink_h d u c h
        = Some (h\<lparr>linkArrs := arrs', helpObjs := (helpObjs h)[p := Some sl]\<rparr>)"
      using app by (simp add: addHelpLink_h_def s Some ls)
    with run have h': "h' = h\<lparr>linkArrs := arrs', helpObjs := (helpObjs h)[p := Some sl]\<rparr>"
      by simp
    have "value_of h' c = Some (struct_value s md (Some \<lparr>links = xs @ [?x]\<rparr>) di, cs)"
      unfolding h' using parts el by (intro help_update_value [OF s Some ls])
    with hp show ?thesis
      by (simp add: helpLinks_def)
  qed
  have "struct_value s md (Some \<lparr>links = helpLinks hp @ [?x]\<rparr>) di
      = addHelpLink d u (struct_value s md hp di)"
    by (cases hp) (simp_all add: addHelpLink_def struct_value_def setters helpLinks_def)
  with goal v show ?thesis
    by simp
qed

lemma apply_change_h_value:
  assumes wf: "wf_err h c" and run: "apply_change_h change c h = Some h'"
  shows "value_of h' c = map_option (\<lambda>(v, cs). (apply_change change v, cs)) (value_of h c)"
proof (cases change)
  case (WithChangeMetadata m)
  with new_map_value [OF wf, of "fmempty ++\<^sub>f m" h'] run show ?thesis
    by simp
next
  case (WithChangeMetadataValue vis key val)
  with addMetadataValue_h_value [OF wf, of vis key val h'] run show ?thesis
    by simp
next
  case (WithChangeMetadataValuef vis key val)
  with addMetadataValue_h_value [OF wf, of vis key val h'] run show ?thesis
    by simp
next
  case (WithChangeHelpLink d u)
  with addHelpLink_h_value [OF wf, of d u h'] run show ?thesis
    by simp
next
  case (WithChangeHelpLinkf d u)
  with addHelpLink_h_value [OF wf, of d u h'] run show ?thesis
    by simp
next
  case (WithChangeID i)
  with run have "upd_err c (\<lambda>x. x\<lparr>s_id := i\<rparr>) h = Some h'"
    by simp
  from upd_err_value [OF wf this, of "set_ID i"] WithChangeID show ?thesis
    by (simp add: struct_value_def setters)
next
  case (WithChangeTime t)
  with run have "upd_err c (\<lambda>x. x\<lparr>s_time := Some t\<rparr>) h = Some h'"
    by simp
  from upd_err_value [OF wf this, of "set_time (Some t)"] WithChangeTime show ?thesis
    by (simp add: struct_value_def setters)
next
  case (WithChangeSourceID x)
  with run have "upd_err c (\<lambda>y. y\<lparr>s_sourceID := x\<rparr>) h = Some h'"
    by simp
  from upd_err_value [OF wf this, of "set_sourceID x"] WithChangeSourceID show ?thesis
    by (simp add: struct_value_def setters)
next
  case (WithChangeRetryInfoDuration x)
  with run have "upd_err c
      (\<lambda>y. y\<lparr>s_retryInfo := Some \<lparr>retryOffset = Some x, retryTime = None\<rparr>\<rparr>) h = Some h'"
    by simp
  from upd_err_value [OF wf this,
      of "set_retryInfo (Some \<lparr>retryOffset = Some x, retryTime = None\<rparr>)"]
    WithChangeRetryInfoDuration show ?thesis
    by (simp add: struct_value_def setters)
next
  case (WithChangeRetryTime x)
  with run have "upd_err c
      (\<lambda>y. y\<lparr>s_retryInfo := Some \<lparr>retryOffset = None, retryTime = Some x\<rparr>\<rparr>) h = Some h'"
    by simp
  from upd_err_value [OF wf this,
      of "set_retryInfo (Some \<lparr>retryOffset = None, retryTime = Some x\<rparr>)"]
    WithChangeRetryTime show ?thesis
    by (simp add: struct_value_def setters)
next
  case (WithChangeLocalizedMessage l m)
  with run have "upd_err c
      (\<lambda>y. y\<lparr>s_localizedMessage := Some \<lparr>llocale = l, lmessage = m\<rparr>\<rparr>) h = Some h'"
    by simp
  from upd_err_value [OF wf this,
      of "set_localizedMessage (Some \<lparr>llocale = l, lmessage = m\<rparr>)"]
    WithChangeLocalizedMessage show ?thesis
    by (simp add: struct_value_def setters)
qed

lemma fresh_slice_wf: "fresh_slice n arrs s \<Longrightarrow> wf_slice arrs s"
  by (cases s) (auto simp add: fresh_slice_def wf_slice_def split: option.splits)

lemma isolated_wf:
  assumes "isolated h0 c h"
  shows "wf_err h c"
proof -
  from assms obtain s where s: "deref (errObjs h) c = Some s"
    and fm: "fresh_ref (length (mapObjs h0)) (length (mapObjs h)) (s_metadata s)"
    and fc: "fresh_slice (length (causeArrs h0)) (causeArrs h) (s_causes s)"
    and fh: "fresh_help (length (helpObjs h0)) (helpObjs h) (length (linkArrs h0)) (linkArrs h)
        (s_help s)"
    and fd: "fresh_debug (length (debugObjs h0)) (debugObjs h) (length (frameArrs h0))
        (frameArrs h) (s_debugInfo s)"
    by (auto simp add: isolated_def owned_iff)
  from fm have "case s_metadata s of None \<Rightarrow> True | Some m \<Rightarrow> m < length (mapObjs h)"
    by (cases "s_metadata s") simp_all
  moreover from fc have "wf_slice (causeArrs h) (s_causes s)"
    by (rule fresh_slice_wf)
  moreover from fh have "case s_help s of
           None \<Rightarrow> True
         | Some p \<Rightarrow>
             (case deref (helpObjs h) p of None \<Rightarrow> False | Some ls \<Rightarrow> wf_slice (linkArrs h) ls)"
    by (cases "s_help s") (auto simp add: fresh_help_Some intro: fresh_slice_wf)
  moreover from fd have "case s_debugInfo s of
           None \<Rightarrow> True
         | Some p \<Rightarrow>
             (case deref (debugObjs h) p of
                None \<Rightarrow> False
              | Some (fs, d) \<Rightarrow> wf_slice (frameArrs h) fs)"
    by (cases "s_debugInfo s") (auto simp add: fresh_debug_Some intro: fresh_slice_wf)
  ultimately show ?thesis
    using s by (simp add: wf_err_def wf_fields_def)
qed

lemma apply_changes_h_value:
  "isolated h0 c h \<Longrightarrow> apply_changes_h changes c h = Some h' \<Longrightarrow>
    value_of h' c = map_option (\<lambda>(v, cs). (apply_changes changes v, cs)) (value_of h c)"
proof (induction changes arbitrary: h)
  case Nil
  then show ?case
    by (simp add: option.map_ident split_def)
next
  case (Cons change changes)
  from apply_change_h_isolated [OF Cons.prems(1), of change] obtain h1 where
    h1: "apply_change_h change c h = Some h1" and i1: "isolated h0 c h1"
    by blast
  with Cons.prems(2) have "apply_changes_h changes c h1 = Some h'"
    by simp
  from Cons.IH [OF i1 this]
  have "value_of h' c = map_option (\<lambda>(v, cs). (apply_changes changes v, cs)) (value_of h1 c)" .
  also have "value_of h1 c = map_option (\<lambda>(v, cs). (apply_change change v, cs)) (value_of h c)"
    by (rule apply_change_h_value [OF isolated_wf [OF Cons.prems(1)] h1])
  finally show ?case
    by (simp add: option.map_comp comp_def split_def)
qed

lemma parts_kept:
  assumes k: "kept h0 h" and wf: "wf_err h0 e" and s: "deref (errObjs h0) e = Some s"
  shows "metadata_of h s = metadata_of h0 s" "help_of h s = help_of h0 s"
    "debugInfo_of h s = debugInfo_of h0 s" "causes_of h s = causes_of h0 s"
proof -
  from k have "take (length (errObjs h0)) (errObjs h) = errObjs h0"
    by (simp add: kept_def)
  from deref_kept [OF this s] have d: "deref (errObjs h) e = Some s" .
  from view_kept [OF k wf] s d
  have eq: "metadata_of h s = metadata_of h0 s" "links_of h s = links_of h0 s"
    "debug_of h s = debug_of h0 s" "causes_of h s = causes_of h0 s"
    by (simp_all add: view_def)
  from eq show "metadata_of h s = metadata_of h0 s" "causes_of h s = causes_of h0 s"
    by simp_all
  from eq show "help_of h s = help_of h0 s" "debugInfo_of h s = debugInfo_of h0 s"
    by (simp_all add: help_of_def debugInfo_of_def cong: option.case_cong)
qed

lemma clone_metadata_effect:
  assumes c: "deref (errObjs h) c = Some sc" and none: "s_metadata sc = None"
    and md: "metadata_of h s = Some md"
  shows "\<exists>h' sc'. clone_metadata (s_metadata s) c h = Some h' \<and> deref (errObjs h') c = Some sc'
    \<and> metadata_of h' sc' = Some md
    \<and> s_causes sc' = s_causes sc \<and> s_help sc' = s_help sc \<and> s_debugInfo sc' = s_debugInfo sc
    \<and> (\<forall>m hp di. struct_value sc' m hp di = struct_value sc m hp di)
    \<and> helpObjs h' = helpObjs h \<and> linkArrs h' = linkArrs h \<and> debugObjs h' = debugObjs h
    \<and> frameArrs h' = frameArrs h \<and> causeArrs h' = causeArrs h"
proof -
  have same: ?thesis if "clone_metadata (s_metadata s) c h = Some h" "md = fmempty"
    using that c none by (intro exI [of _ h] exI [of _ sc]) (simp add: metadata_of_def)
  show ?thesis
  proof (cases "s_metadata s")
    case None
    with md show ?thesis
      by (intro same) (simp_all add: clone_metadata_def metadata_of_def)
  next
    case (Some m)
    with md have m: "deref (mapObjs h) m = Some md"
      by (simp add: metadata_of_def)
    show ?thesis
    proof (cases "fmdom md = {||}")
      case True
      with Some m show ?thesis
        by (intro same) (simp_all add: clone_metadata_def fmdom_empty_iff)
    next
      case False
      let ?sc' = "sc\<lparr>s_metadata := Some (length (mapObjs h))\<rparr>"
      let ?h' = "h\<lparr>mapObjs := mapObjs h @ [md], errObjs := (errObjs h)[c := ?sc']\<rparr>"
      have "clone_metadata (s_metadata s) c h = Some ?h'"
        using False by (simp add: clone_metadata_def Some m upd_err_def c)
      moreover have "deref (errObjs ?h') c = Some ?sc'"
        using deref_Some_less [OF c] by (simp add: deref_update)
      moreover have "metadata_of ?h' ?sc' = Some md"
        by (simp add: metadata_of_def deref_append)
      ultimately show ?thesis
        by (intro exI [of _ ?h'] exI [of _ ?sc']) simp
    qed
  qed
qed

lemma clone_causes_effect:
  assumes c: "deref (errObjs h) c = Some sc" and none: "s_causes sc = None"
    and cs: "causes_of h s = Some cs" and wf: "wf_slice (causeArrs h) (s_causes s)"
  shows "\<exists>h' sc'. clone_causes (s_causes s) c h = Some h' \<and> deref (errObjs h') c = Some sc'
    \<and> causes_of h' sc' = Some cs
    \<and> s_metadata sc' = s_metadata sc \<and> s_help sc' = s_help sc \<and> s_debugInfo sc' = s_debugInfo sc
    \<and> (\<forall>m hp di. struct_value sc' m hp di = struct_value sc m hp di)
    \<and> mapObjs h' = mapObjs h \<and> helpObjs h' = helpObjs h \<and> linkArrs h' = linkArrs h
    \<and> debugObjs h' = debugObjs h \<and> frameArrs h' = frameArrs h"
proof -
  have same: ?thesis if "clone_causes (s_causes s) c h = Some h" "cs = []"
    using that c none by (intro exI [of _ h] exI [of _ sc]) (simp add: causes_of_def elems_def)
  show ?thesis
  proof (cases "s_causes s")
    case None
    with cs show ?thesis
      by (intro same) (simp_all add: clone_causes_def causes_of_def elems_def)
  next
    case (Some sl)
    with wf obtain arr where arr: "deref (causeArrs h) (base sl) = Some arr"
      and le: "len sl \<le> length arr"
      by (auto simp add: wf_slice_def split: option.splits)
    from cs Some arr have cs_eq: "cs = take (len sl) arr"
      by (simp add: causes_of_def elems_def)
    show ?thesis
    proof (cases "0 < len sl")
      case False
      with Some cs_eq show ?thesis
        by (intro same) (simp_all add: clone_causes_def)
    next
      case True
      let ?sl = "\<lparr>base = length (causeArrs h), len = len sl\<rparr>"
      let ?sc' = "sc\<lparr>s_causes := Some ?sl\<rparr>"
      let ?h' = "h\<lparr>causeArrs := causeArrs h @ [take (len sl) arr],
                    errObjs := (errObjs h)[c := ?sc']\<rparr>"
      have "clone_causes (s_causes s) c h = Some ?h'"
        using True le by (simp add: clone_causes_def Some arr upd_err_def c)
      moreover have "deref (errObjs ?h') c = Some ?sc'"
        using deref_Some_less [OF c] by (simp add: deref_update)
      moreover have "causes_of ?h' ?sc' = Some cs"
        by (simp add: causes_of_def elems_def deref_append cs_eq)
      ultimately show ?thesis
        by (intro exI [of _ ?h'] exI [of _ ?sc']) simp
    qed
  qed
qed

lemma Help_copy_h_elems:
  assumes "wf_slice (linkArrs h) ls"
  shows "\<exists>ls' arrs'. Help_copy_h ls h = Some (ls', h\<lparr>linkArrs := arrs'\<rparr>)
           \<and> elems arrs' ls' = elems (linkArrs h) ls"
proof (cases ls)
  case None
  show ?thesis
    by (intro exI [of _ None] exI [of _ "linkArrs h"]) (simp add: Help_copy_h_def None)
next
  case (Some sl)
  with assms obtain arr where arr: "deref (linkArrs h) (base sl) = Some arr"
    and le: "len sl \<le> length arr"
    by (auto simp add: wf_slice_def split: option.splits)
  show ?thesis
  proof (cases "len sl = 0")
    case True
    show ?thesis
      by (intro exI [of _ None] exI [of _ "linkArrs h"])
        (simp add: Help_copy_h_def Some True elems_def arr)
  next
    case False
    then show ?thesis
      using le
      by (intro exI [of _ "Some \<lparr>base = length (linkArrs h), len = len sl\<rparr>"]
          exI [of _ "linkArrs h @ [take (len sl) arr]"])
        (simp add: Help_copy_h_def Some arr elems_def deref_append)
  qed
qed

lemma DebugInfo_copy_h_elems:
  assumes "wf_slice (frameArrs h) fs"
  shows "\<exists>fs' arrs'. DebugInfo_copy_h fs h = Some (fs', h\<lparr>frameArrs := arrs'\<rparr>)
           \<and> elems arrs' fs' = elems (frameArrs h) fs"
proof (cases fs)
  case None
  show ?thesis
    by (intro exI [of _ None] exI [of _ "frameArrs h"]) (simp add: DebugInfo_copy_h_def None)
next
  case (Some sl)
  with assms obtain arr where arr: "deref (frameArrs h) (base sl) = Some arr"
    and le: "len sl \<le> length arr"
    by (auto simp add: wf_slice_def split: option.splits)
  show ?thesis
  proof (cases "len sl = 0")
    case True
    show ?thesis
      by (intro exI [of _ None] exI [of _ "frameArrs h"])
        (simp add: DebugInfo_copy_h_def Some True elems_def arr)
  next
    case False
    then show ?thesis
      using le
      by (intro exI [of _ "Some \<lparr>base = length (frameArrs h), len = len sl\<rparr>"]
          exI [of _ "frameArrs h @ [take (len sl) arr]"])
        (simp add: DebugInfo_copy_h_def Some arr elems_def deref_append)
  qed
qed

lemma clone_help_effect:
  assumes c: "deref (errObjs h) c = Some sc" and none: "s_help sc = None"
    and hp: "help_of h s = Some hp"
    and wf: "case s_help s of
           None \<Rightarrow> True
         | Some p \<Rightarrow>
             (case deref (helpObjs h) p of None \<Rightarrow> False | Some ls \<Rightarrow> wf_slice (linkArrs h) ls)"
  shows "\<exists>h' sc'. clone_help (s_help s) c h = Some h' \<and> deref (errObjs h') c = Some sc'
    \<and> help_of h' sc' = Some hp
    \<and> s_metadata sc' = s_metadata sc \<and> s_causes sc' = s_causes sc
    \<and> s_debugInfo sc' = s_debugInfo sc
    \<and> (\<forall>m hp di. struct_value sc' m hp di = struct_value sc m hp di)
    \<and> mapObjs h' = mapObjs h \<and> debugObjs h' = debugObjs h \<and> frameArrs h' = frameArrs h
    \<and> causeArrs h' = causeArrs h"
proof (cases "s_help s")
  case None
  with hp c none show ?thesis
    by (intro exI [of _ h] exI [of _ sc]) (simp add: clone_help_def help_of_def)
next
  case (Some p)
  with wf obtain ls where ls: "deref (helpObjs h) p = Some ls" and wl: "wf_slice (linkArrs h) ls"
    by (auto split: option.splits)
  from Help_copy_h_elems [OF wl] obtain ls' arrs' where
    cp: "Help_copy_h ls h = Some (ls', h\<lparr>linkArrs := arrs'\<rparr>)"
    and el: "elems arrs' ls' = elems (linkArrs h) ls"
    by blast
  let ?sc' = "sc\<lparr>s_help := Some (length (helpObjs h))\<rparr>"
  let ?h' = "h\<lparr>linkArrs := arrs', helpObjs := helpObjs h @ [ls'],
                errObjs := (errObjs h)[c := ?sc']\<rparr>"
  have "clone_help (s_help s) c h = Some ?h'"
    by (simp add: clone_help_def Some ls cp upd_err_def c)
  moreover have "deref (errObjs ?h') c = Some ?sc'"
    using deref_Some_less [OF c] by (simp add: deref_update)
  moreover have "help_of ?h' ?sc' = Some hp"
    using hp by (simp add: help_of_def links_of_def Some ls el deref_append)
  ultimately show ?thesis
    by (intro exI [of _ ?h'] exI [of _ ?sc']) simp
qed

lemma clone_debugInfo_effect:
  assumes c: "deref (errObjs h) c = Some sc" and none: "s_debugInfo sc = None"
    and di: "debugInfo_of h s = Some di"
    and wf: "case s_debugInfo s of
           None \<Rightarrow> True
         | Some p \<Rightarrow>
             (case deref (debugObjs h) p of
                None \<Rightarrow> False
              | Some (fs, d) \<Rightarrow> wf_slice (frameArrs h) fs)"
  shows "\<exists>h' sc'. clone_debugInfo (s_debugInfo s) c h = Some h' \<and> deref (errObjs h') c = Some sc'
    \<and> debugInfo_of h' sc' = Some di
    \<and> s_metadata sc' = s_metadata sc \<and> s_causes sc' = s_causes sc \<and> s_help sc' = s_help sc
    \<and> (\<forall>m hp di. struct_value sc' m hp di = struct_value sc m hp di)
    \<and> mapObjs h' = mapObjs h \<and> helpObjs h' = helpObjs h \<and> linkArrs h' = linkArrs h
    \<and> causeArrs h' = causeArrs h"
proof (cases "s_debugInfo s")
  case None
  with di c none show ?thesis
    by (intro exI [of _ h] exI [of _ sc]) (simp add: clone_debugInfo_def debugInfo_of_def debug_of_def)
next
  case (Some p)
  with wf obtain fs d where fs: "deref (debugObjs h) p = Some (fs, d)"
    and wl: "wf_slice (frameArrs h) fs"
    by (auto split: option.splits)
  from DebugInfo_copy_h_elems [OF wl] obtain fs' arrs' where
    cp: "DebugInfo_copy_h fs h = Some (fs', h\<lparr>frameArrs := arrs'\<rparr>)"
    and el: "elems arrs' fs' = elems (frameArrs h) fs"
    by blast
  let ?sc' = "sc\<lparr>s_debugInfo := Some (length (debugObjs h))\<rparr>"
  let ?h' = "h\<lparr>frameArrs := arrs', debugObjs := debugObjs h @ [(fs', d)],
                errObjs := (errObjs h)[c := ?sc']\<rparr>"
  have "clone_debugInfo (s_debugInfo s) c h = Some ?h'"
    by (simp add: clone_debugInfo_def Some fs cp upd_err_def c)
  moreover have "deref (errObjs ?h') c = Some ?sc'"
    using deref_Some_less [OF c] by (simp add: deref_update)
  moreover have "debugInfo_of ?h' ?sc' = Some di"
    using di by (simp add: debugInfo_of_def debug_of_def Some fs el deref_append)
  ultimately show ?thesis
    by (intro exI [of _ ?h'] exI [of _ ?sc']) simp
qed

lemma copy_h_value:
  assumes wfe: "wf_err h e"
  shows "\<exists>h'. copy_h e h = Some (length (errObjs h), h') \<and> isolated h (length (errObjs h)) h'
    \<and> value_of h' (length (errObjs h)) = value_of h e"
proof -
  from wfe obtain s md hp di cs where s: "deref (errObjs h) e = Some s"
    and wf: "wf_fields h s"
    and parts: "metadata_of h s = Some md" "help_of h s = Some hp" "debugInfo_of h s = Some di"
      "causes_of h s = Some cs"
    and v: "value_of h e = Some (struct_value s md hp di, cs)"
    by (rule wf_err_parts)
  let ?c = "length (errObjs h)"
  let ?s0 = "s\<lparr>s_metadata := None, s_causes := None, s_help := None, s_debugInfo := None\<rparr>"
  let ?h0 = "h\<lparr>errObjs := errObjs h @ [?s0]\<rparr>"
  have i0: "isolated h ?c ?h0"
    by (simp add: isolated_def kept_def owned_iff deref_append)
  have d0: "deref (errObjs ?h0) ?c = Some ?s0"
    by (simp add: deref_append)
  have wf_at: "wf_fields g s" if "isolated h ?c g" for g
    using wf_fields_kept [OF isolated_kept [OF that] wf] .
  have parts_at: "metadata_of g s = Some md" "help_of g s = Some hp"
    "debugInfo_of g s = Some di" "causes_of g s = Some cs" if "isolated h ?c g" for g
    using parts_kept [OF isolated_kept [OF that] wfe s] parts by simp_all
  from clone_metadata_isolated [OF i0, of "s_metadata s"] wf_at [OF i0]
  obtain h1 where h1: "clone_metadata (s_metadata s) ?c ?h0 = Some h1" and i1: "isolated h ?c h1"
    by (auto simp add: wf_fields_def)
  from clone_metadata_effect [OF d0 _ parts_at(1) [OF i0]] h1
  obtain s1 where d1: "deref (errObjs h1) ?c = Some s1"
    and m1: "metadata_of h1 s1 = Some md"
    and f1: "s_causes s1 = None" "s_help s1 = None" "s_debugInfo s1 = None"
    and v1: "\<And>m hp di. struct_value s1 m hp di = struct_value ?s0 m hp di"
    by auto
  from clone_causes_isolated [OF i1, of "s_causes s"] wf_at [OF i1]
  obtain h2 where h2: "clone_causes (s_causes s) ?c h1 = Some h2" and i2: "isolated h ?c h2"
    by (auto simp add: wf_fields_def)
  from wf_at [OF i1] have "wf_slice (causeArrs h1) (s_causes s)"
    by (simp add: wf_fields_def)
  from clone_causes_effect [OF d1 f1(1) parts_at(4) [OF i1] this] h2
  obtain s2 where d2: "deref (errObjs h2) ?c = Some s2"
    and c2: "causes_of h2 s2 = Some cs"
    and f2: "s_metadata s2 = s_metadata s1" "s_help s2 = None" "s_debugInfo s2 = None"
    and v2: "\<And>m hp di. struct_value s2 m hp di = struct_value s1 m hp di"
    and r2: "mapObjs h2 = mapObjs h1"
    using f1 by auto
  have m2: "metadata_of h2 s2 = Some md"
    using metadata_of_cong [OF r2 f2(1)] m1 by simp
  from clone_help_isolated [OF i2, of "s_help s"] wf_at [OF i2]
  obtain h3 where h3: "clone_help (s_help s) ?c h2 = Some h3" and i3: "isolated h ?c h3"
    by (auto simp add: wf_fields_def)
  from wf_at [OF i2] have "case s_help s of
           None \<Rightarrow> True
         | Some p \<Rightarrow>
             (case deref (helpObjs h2) p of None \<Rightarrow> False | Some ls \<Rightarrow> wf_slice (linkArrs h2) ls)"
    by (simp add: wf_fields_def)
  from clone_help_effect [OF d2 f2(2) parts_at(2) [OF i2] this] h3
  obtain s3 where d3: "deref (errObjs h3) ?c = Some s3"
    and p3: "help_of h3 s3 = Some hp"
    and f3: "s_metadata s3 = s_metadata s2" "s_causes s3 = s_causes s2" "s_debugInfo s3 = None"
    and v3: "\<And>m hp di. struct_value s3 m hp di = struct_value s2 m hp di"
    and r3: "mapObjs h3 = mapObjs h2" "causeArrs h3 = causeArrs h2"
    using f2 by auto
  have m3: "metadata_of h3 s3 = Some md"
    using metadata_of_cong [OF r3(1) f3(1)] m2 by simp
  have c3: "causes_of h3 s3 = Some cs"
    using causes_of_cong [OF r3(2) f3(2)] c2 by simp
  from clone_debugInfo_isolated [OF i3, of "s_debugInfo s"] wf_at [OF i3]
  obtain h4 where h4: "clone_debugInfo (s_debugInfo s) ?c h3 = Some h4" and i4: "isolated h ?c h4"
    by (auto simp add: wf_fields_def)
  from wf_at [OF i3] have "case s_debugInfo s of
           None \<Rightarrow> True
         | Some p \<Rightarrow>
             (case deref (debugObjs h3) p of
                None \<Rightarrow> False
              | Some (fs, d) \<Rightarrow> wf_slice (frameArrs h3) fs)"
    by (simp add: wf_fields_def)
  from clone_debugInfo_effect [OF d3 f3(3) parts_at(3) [OF i3] this] h4
  obtain s4 where d4: "deref (errObjs h4) ?c = Some s4"
    and g4: "debugInfo_of h4 s4 = Some di"
    and f4: "s_metadata s4 = s_metadata s3" "s_causes s4 = s_causes s3" "s_help s4 = s_help s3"
    and v4: "\<And>m hp di. struct_value s4 m hp di = struct_value s3 m hp di"
    and r4: "mapObjs h4 = mapObjs h3" "causeArrs h4 = causeArrs h3" "helpObjs h4 = helpObjs h3"
      "linkArrs h4 = linkArrs h3"
    by auto
  have m4: "metadata_of h4 s4 = Some md"
    using metadata_of_cong [OF r4(1) f4(1)] m3 by simp
  have c4: "causes_of h4 s4 = Some cs"
    using causes_of_cong [OF r4(2) f4(2)] c3 by simp
  have p4: "help_of h4 s4 = Some hp"
    using help_of_cong [OF r4(3) r4(4) f4(3)] p3 by simp
  have "value_of h4 ?c = Some (struct_value s4 md hp di, cs)"
    using d4 m4 p4 g4 c4 by (simp add: value_of_def)
  also have "struct_value s4 md hp di = struct_value s md hp di"
    by (simp add: v4 v3 v2 v1)
  finally have "value_of h4 ?c = value_of h e"
    using v by simp
  moreover have "copy_h e h = Some (?c, h4)"
    by (simp add: copy_h_def s h1 h2 h3 h4)
  ultimately show ?thesis
    using i4 by blast
qed

subsection \<open>The receiver after WithChanges\<close>

text \<open>
  C2. For every error \<^term>\<open>e\<close> that is well formed in a store \<^term>\<open>h\<close> and every sequence
  of change options, \<^verbatim>\<open>e.WithChanges(changes...)\<close> returns. Its result \<^term>\<open>c\<close> is a
  fresh object: its address is the first one that was free in \<^term>\<open>h\<close>. Every object of
  \<^term>\<open>h\<close> is unchanged afterwards, so every field of \<^term>\<open>e\<close>, the entries of its
  metadata, its help links, its debug information and its causes are what they were. The
  metadata map, the array of causes, the help object with the array of its links and the debug
  information with the array of its frames are, in the result, nil or objects that did not
  exist in \<^term>\<open>h\<close>. The clone that \<^verbatim>\<open>copy()\<close> hands to the first change option has
  these properties already, and it reads as the same value as \<^term>\<open>e\<close>: the same fields,
  the same metadata entries, help links, stack frames and detail, and the same causes. The
  result reads as the value that the changes make of that value. Finally, whatever change
  options are applied to the result later, in place, they all return and \<^term>\<open>e\<close> still
  reads the same.
\<close>

theorem WithChanges_h_isolated:
  "wf_err h e \<longrightarrow>
    (\<exists>c h'. WithChanges_h e changes h = Some (c, h')
       \<and> c = length (errObjs h)
       \<and> kept h h' \<and> view h' e = view h e
       \<and> owned h c h'
       \<and> (\<exists>v cs. value_of h e = Some (v, cs)
            \<and> value_of h' c = Some (WithChanges v changes, cs)
            \<and> (\<exists>h0. copy_h e h = Some (c, h0) \<and> owned h c h0
                  \<and> value_of h0 c = Some (v, cs)))
       \<and> (\<forall>more. \<exists>h''. apply_changes_h more c h' = Some h''
             \<and> kept h h'' \<and> view h'' e = view h e))"
proof
  assume wf: "wf_err h e"
  let ?c = "length (errObjs h)"
  from copy_h_value [OF wf] obtain h1 where cp: "copy_h e h = Some (?c, h1)"
    and i1: "isolated h ?c h1" and v1: "value_of h1 ?c = value_of h e"
    by blast
  from wf obtain v cs where v: "value_of h e = Some (v, cs)"
    by (rule wf_err_parts)
  from apply_changes_h_isolated [OF i1, of changes] obtain h' where
    ch: "apply_changes_h changes ?c h1 = Some h'" and i': "isolated h ?c h'"
    by blast
  have run: "WithChanges_h e changes h = Some (?c, h')"
    by (simp add: WithChanges_h_def cp ch)
  from apply_changes_h_value [OF i1 ch] v1 v
  have val: "value_of h' ?c = Some (WithChanges v changes, cs)"
    by (simp add: WithChanges_def)
  from i1 v1 v cp have copied: "\<exists>h0. copy_h e h = Some (?c, h0) \<and> owned h ?c h0
      \<and> value_of h0 ?c = Some (v, cs)"
    by (auto simp add: isolated_def)
  have later: "\<exists>h''. apply_changes_h more ?c h' = Some h'' \<and> kept h h'' \<and> view h'' e = view h e"
    for more
  proof -
    from apply_changes_h_isolated [OF i', of more] obtain h'' where
      "apply_changes_h more ?c h' = Some h''" "isolated h ?c h''"
      by blast
    then show ?thesis
      using view_kept [OF _ wf, of h''] by (auto simp add: isolated_def)
  qed
  from i' have "kept h h'" "owned h ?c h'"
    by (simp_all add: isolated_def)
  with run later view_kept [OF _ wf, of h'] v val copied
  show "\<exists>c h'. WithChanges_h e changes h = Some (c, h')
       \<and> c = length (errObjs h)
       \<and> kept h h' \<and> view h' e = view h e
       \<and> owned h c h'
       \<and> (\<exists>v cs. value_of h e = Some (v, cs)
            \<and> value_of h' c = Some (WithChanges v changes, cs)
            \<and> (\<exists>h0. copy_h e h = Some (c, h0) \<and> owned h c h0
                  \<and> value_of h0 c = Some (v, cs)))
       \<and> (\<forall>more. \<exists>h''. apply_changes_h more c h' = Some h''
             \<and> kept h h'' \<and> view h'' e = view h e)"
    by blast
qed

text \<open>
  The theorem at work on the example store: the error at address 1 gets a metadata entry, a
  help link and an id through \<^verbatim>\<open>WithChanges\<close>; the result lies at address 2, it has the
  old and the new metadata entry, both links, the debug information and the cause of the
  receiver, and the error at address 1 reads as before, also after a further link is appended
  to the result.
\<close>

theorem WithChanges_h_isolated_witness:
  "wf_err example_store 1
   \<and> (\<exists>c h' v. WithChanges_h 1
          [WithChangeMetadataValue VisibilityPublic ''k2'' ''v2'',
           WithChangeHelpLink ''More'' ''u2'', WithChangeID ''i''] example_store = Some (c, h')
        \<and> c = 2
        \<and> kept example_store h' \<and> view h' 1 = view example_store 1
        \<and> owned example_store c h'
        \<and> value_of h' c = Some (v, [Some 0])
        \<and> ID v = ''i'' \<and> code v = CodeUnavailable
        \<and> fmlookup (metadata v) ''k'' = Some \<lparr>mvalue = ''v'', mvisibility = VisibilityPublic\<rparr>
        \<and> fmlookup (metadata v) ''k2'' = Some \<lparr>mvalue = ''v2'', mvisibility = VisibilityPublic\<rparr>
        \<and> help' v = Some \<lparr>links = [\<lparr>description = ''Docs'', url = ''u''\<rparr>,
                                    \<lparr>description = ''More'', url = ''u2''\<rparr>]\<rparr>
        \<and> debugInfo v = Some \<lparr>stackFrames = [\<lparr>File = ''a.go'', Line = 7, Function = ''f''\<rparr>],
                               detail = ''boom''\<rparr>
        \<and> (\<exists>h''. apply_changes_h [WithChangeHelpLink ''Later'' ''u3''] c h' = Some h''
              \<and> kept example_store h'' \<and> view h'' 1 = view example_store 1))"
proof -
  let ?changes = "[WithChangeMetadataValue VisibilityPublic ''k2'' ''v2'',
           WithChangeHelpLink ''More'' ''u2'', WithChangeID ''i'']"
  let ?V = "TrogonError SpecVersion CodeUnavailable [] ''shop'' ''BUSY''
        (fmupd ''k'' \<lparr>mvalue = ''v'', mvisibility = VisibilityPublic\<rparr> fmempty) []
        VisibilityInternal [] [] None (Some \<lparr>links = [\<lparr>description = ''Docs'', url = ''u''\<rparr>]\<rparr>)
        (Some \<lparr>stackFrames = [\<lparr>File = ''a.go'', Line = 7, Function = ''f''\<rparr>], detail = ''boom''\<rparr>)
        None None [] None"
  have wf: "wf_err example_store 1"
    by code_simp
  have len: "length (errObjs example_store) = 2"
    by (simp add: example_store_def)
  have ex: "value_of example_store 1 = Some (?V, [Some 0])"
    by (simp add: value_of_def example_store_def deref_def metadata_of_def help_of_def
        links_of_def debugInfo_of_def debug_of_def causes_of_def elems_def struct_value_def)
  from WithChanges_h_isolated [of example_store 1 ?changes] wf
  obtain c h' v cs where run: "WithChanges_h 1 ?changes example_store = Some (c, h')"
    and c: "c = length (errObjs example_store)"
    and kept: "kept example_store h'" "view h' 1 = view example_store 1"
    and owned: "owned example_store c h'"
    and v: "value_of example_store 1 = Some (v, cs)"
    and val: "value_of h' c = Some (WithChanges v ?changes, cs)"
    and later: "\<And>more. \<exists>h''. apply_changes_h more c h' = Some h''
          \<and> kept example_store h'' \<and> view h'' 1 = view example_store 1"
    by blast
  from v ex have "v = ?V" "cs = [Some 0]"
    by simp_all
  with val have val': "value_of h' c = Some (WithChanges ?V ?changes, [Some 0])"
    by simp
  have facts: "ID (WithChanges ?V ?changes) = ''i''" "code (WithChanges ?V ?changes) = CodeUnavailable"
    "fmlookup (metadata (WithChanges ?V ?changes)) ''k''
      = Some \<lparr>mvalue = ''v'', mvisibility = VisibilityPublic\<rparr>"
    "fmlookup (metadata (WithChanges ?V ?changes)) ''k2''
      = Some \<lparr>mvalue = ''v2'', mvisibility = VisibilityPublic\<rparr>"
    "help' (WithChanges ?V ?changes)
      = Some \<lparr>links = [\<lparr>description = ''Docs'', url = ''u''\<rparr>,
                         \<lparr>description = ''More'', url = ''u2''\<rparr>]\<rparr>"
    "debugInfo (WithChanges ?V ?changes)
      = Some \<lparr>stackFrames = [\<lparr>File = ''a.go'', Line = 7, Function = ''f''\<rparr>], detail = ''boom''\<rparr>"
    by (simp_all add: WithChanges_def addMetadataValue_eq addHelpLink_def setters)
  from wf run c len kept owned val' facts later [of "[WithChangeHelpLink ''Later'' ''u3'']"]
  show ?thesis
    by blast
qed

end
